theory Spec2Isabelle
  imports Complex_Main "HOL-Library.Product_Lexorder" "HOL-Library.Monad_Syntax"
begin

section \<open>Market index and adjustment engine of market\_condition\_app\_v4\_15\_premium\_plus.py\<close>

text \<open>
  The embedding follows the Python source function by function.

  \<^item> A Python/numpy float is a \<open>real option\<close>: \<open>None\<close> is NaN (what \<open>pd.isna\<close> tests),
    \<open>Some x\<close> is the finite value \<open>x\<close>. The index, the adjustments and the regression
    are modelled in exact real arithmetic. The interquartile-range rule is modelled with
    every operation rounded to double precision, because the property stated of it
    depends on the rounding.
  \<^item> A \<open>datetime.date\<close> is the triple (year, month, day) with the lexicographic order,
    which is the order Python compares dates by.
  \<^item> A pandas data frame is the list of its rows, in frame order.
\<close>

type_synonym float = "real option"
type_synonym date = "int \<times> int \<times> int"

subsection \<open>Floats with NaN\<close>

definition isna :: "float \<Rightarrow> bool" where
  "isna x = (x = None)"

fun fmul :: "float \<Rightarrow> float \<Rightarrow> float" where
  "fmul (Some a) (Some b) = Some (a * b)"
| "fmul _ _ = None"

fun fsub :: "float \<Rightarrow> float \<Rightarrow> float" where
  "fsub (Some a) (Some b) = Some (a - b)"
| "fsub _ _ = None"

text \<open>Every division of the modelled code is guarded against a zero divisor; the
  unguarded case (a non-finite float in numpy) is mapped to NaN.\<close>

fun fdiv :: "float \<Rightarrow> float \<Rightarrow> float" where
  "fdiv (Some a) (Some b) = (if b = 0 then None else Some (a / b))"
| "fdiv _ _ = None"

text \<open>Comparisons with NaN are false.\<close>

fun fgt :: "float \<Rightarrow> float \<Rightarrow> bool" where
  "fgt (Some a) (Some b) = (a > b)"
| "fgt _ _ = False"

fun flt :: "float \<Rightarrow> float \<Rightarrow> bool" where
  "flt (Some a) (Some b) = (a < b)"
| "flt _ _ = False"

subsection \<open>Dates\<close>

definition month_start :: "date \<Rightarrow> date" where
  "month_start d = (case d of (y, m, _) \<Rightarrow> (y, m, 1))"

definition is_leap :: "int \<Rightarrow> bool" where
  "is_leap y = (y mod 4 = 0 \<and> (y mod 100 \<noteq> 0 \<or> y mod 400 = 0))"

definition days_before_year :: "int \<Rightarrow> int" where
  "days_before_year year = (let y = year - 1 in y * 365 + y div 4 - y div 100 + y div 400)"

definition days_before_month :: "int \<Rightarrow> int \<Rightarrow> int" where
  "days_before_month year month =
     ([0, 0, 31, 59, 90, 120, 151, 181, 212, 243, 273, 304, 334] ! nat (min 12 (max 1 month)))
     + (if month > 2 \<and> is_leap year then 1 else 0)"

text \<open>The day number of a date (the proleptic Gregorian ordinal), by which
  \<open>pd.Timestamp(d1) - pd.Timestamp(d2)\<close> counts whole days.\<close>

definition toordinal :: "date \<Rightarrow> int" where
  "toordinal d = (case d of (y, m, dd) \<Rightarrow> days_before_year y + days_before_month y m + dd)"

definition days_between :: "date \<Rightarrow> date \<Rightarrow> int" where
  "days_between d1 d2 = \<bar>toordinal d1 - toordinal d2\<bar>"

subsection \<open>Percent change and labels\<close>

definition pct_change :: "float \<Rightarrow> float \<Rightarrow> float" where
  "pct_change i_eff i_contract =
     (if isna i_eff \<or> isna i_contract \<or> i_contract = Some 0 then None
      else fsub (fdiv i_eff i_contract) (Some 1))"

definition categorize_adjustment :: "float \<Rightarrow> real \<Rightarrow> string" where
  "categorize_adjustment adj_pct threshold =
     (if isna adj_pct then ''N/A''
      else if fgt adj_pct (Some threshold) then ''Increasing''
      else if flt adj_pct (Some (- threshold)) then ''Declining''
      else ''Stable'')"

definition adjustment_direction :: "float \<Rightarrow> real \<Rightarrow> string" where
  "adjustment_direction adj_pct threshold =
     (if isna adj_pct \<or> flt (map_option abs adj_pct) (Some threshold) then ''NO ADJUSTMENT''
      else if fgt adj_pct (Some 0) then ''UPWARD''
      else ''DOWNWARD'')"

subsection \<open>Monthly index construction\<close>

record sale =
  ContractDate :: "date option"
  SoldPrice :: float

record month_row =
  Month :: date
  SalesCount :: nat
  MedianPrice :: float
  ThinMonth :: bool
  Index_Raw :: float

text \<open>\<open>dropna(subset=["ContractDate", "SoldPrice"])\<close>: the rows that have both.\<close>

definition dropna :: "sale list \<Rightarrow> (date \<times> real) list" where
  "dropna df = List.map_filter
     (\<lambda>r. case (ContractDate r, SoldPrice r) of (Some d, Some p) \<Rightarrow> Some (d, p) | _ \<Rightarrow> None) df"

text \<open>The median of pandas on values without NaN: the middle order statistic, or the mean
  of the two middle ones; NaN on no value.\<close>

definition median :: "real list \<Rightarrow> float" where
  "median xs =
     (let s = sort xs; n = length s in
      if n = 0 then None
      else if odd n then Some (s ! (n div 2))
      else Some ((s ! (n div 2 - 1) + s ! (n div 2)) / 2))"

text \<open>\<open>groupby("Month").agg(size, median).sort_values("Month")\<close>, then the columns
  \<open>ThinMonth\<close> and \<open>Index_Raw = NaN\<close>.\<close>

definition monthly_buckets :: "(date \<times> real) list \<Rightarrow> int \<Rightarrow> month_row list" where
  "monthly_buckets d min_sales_per_month =
     map (\<lambda>k. let g = map snd (filter (\<lambda>r. month_start (fst r) = k) d) in
            \<lparr>Month = k, SalesCount = length g, MedianPrice = median g,
             ThinMonth = (int (length g) < min_sales_per_month), Index_Raw = None\<rparr>)
         (sort (remdups (map (\<lambda>r. month_start (fst r)) d)))"

text \<open>The loop \<open>for i in range(1, len(m))\<close>: \<open>prev\<close> and \<open>prev_idx\<close> are the median and
  the index of row \<open>i - 1\<close>, already written.\<close>

fun index_loop :: "float \<Rightarrow> float \<Rightarrow> month_row list \<Rightarrow> month_row list" where
  "index_loop prev prev_idx [] = []"
| "index_loop prev prev_idx (r # rs) =
     (let cur = MedianPrice r;
          v = (if isna prev \<or> prev = Some 0 \<or> isna cur then prev_idx
               else fmul prev_idx (fdiv cur prev))
      in r\<lparr>Index_Raw := v\<rparr> # index_loop cur v rs)"

definition set_index_raw :: "month_row list \<Rightarrow> month_row list" where
  "set_index_raw m =
     (case m of [] \<Rightarrow> []
      | r # rs \<Rightarrow> r\<lparr>Index_Raw := Some 1\<rparr> # index_loop (MedianPrice r) (Some 1) rs)"

definition build_monthly_index_price :: "sale list \<Rightarrow> int \<Rightarrow> month_row list" where
  "build_monthly_index_price df min_sales_per_month =
     set_index_raw (monthly_buckets (dropna df) min_sales_per_month)"

subsection \<open>Smoothing, dispersion and trend regression\<close>

record index_row = month_row +
  Index_Smoothed :: float
  Index_Std :: float
  Index_Regression :: float

text \<open>The window of \<open>rolling(window=w, center=True)\<close> at position \<open>i\<close>: with
  \<open>offset = (w - 1) // 2\<close> it is the slice from \<open>i + 1 + offset - w\<close> to \<open>i + 1 + offset\<close>,
  both clipped to the frame (the truncating subtraction of \<open>nat\<close> clips at 0).\<close>

definition rolling_window :: "nat \<Rightarrow> nat \<Rightarrow> 'a list \<Rightarrow> 'a list" where
  "rolling_window w i xs =
     (let offset = (w - 1) div 2;
          e = min (i + 1 + offset) (length xs);
          s = min (i + 1 + offset - w) (length xs)
      in take (e - s) (drop s xs))"

text \<open>The observations of a window: its values that are not NaN.\<close>

definition observations :: "float list \<Rightarrow> real list" where
  "observations win = List.map_filter id win"

definition mean :: "real list \<Rightarrow> real" where
  "mean xs = sum_list xs / real (length xs)"

text \<open>\<open>.mean()\<close> with \<open>min_periods=1\<close>.\<close>

definition rolling_mean :: "nat \<Rightarrow> float list \<Rightarrow> nat \<Rightarrow> float" where
  "rolling_mean w y i =
     (let obs = observations (rolling_window w i y) in
      if length obs \<ge> 1 then Some (mean obs) else None)"

text \<open>The sample standard deviation (\<open>ddof=1\<close>), which \<open>.std()\<close> computes.\<close>

definition sample_std :: "real list \<Rightarrow> real" where
  "sample_std xs =
     sqrt (sum_list (map (\<lambda>x. (x - mean xs) ^ 2) xs) / (real (length xs) - 1))"

text \<open>\<open>.std()\<close> with \<open>min_periods=2\<close>: NaN on fewer than two observations.\<close>

definition rolling_std :: "nat \<Rightarrow> float list \<Rightarrow> nat \<Rightarrow> float" where
  "rolling_std w y i =
     (let obs = observations (rolling_window w i y) in
      if length obs \<ge> 2 then Some (sample_std obs) else None)"

definition fillna :: "real \<Rightarrow> float \<Rightarrow> float" where
  "fillna v x = (case x of None \<Rightarrow> Some v | Some a \<Rightarrow> Some a)"

text \<open>\<open>np.polyfit(x, y, 1)\<close>: the coefficients (slope, intercept) of the least-squares
  line, in the closed form of the normal equations.\<close>

definition polyfit1 :: "(real \<times> real) list \<Rightarrow> real \<times> real" where
  "polyfit1 pts =
     (let n = real (length pts);
          sx = sum_list (map fst pts);
          sy = sum_list (map snd pts);
          sxx = sum_list (map (\<lambda>p. fst p * fst p) pts);
          sxy = sum_list (map (\<lambda>p. fst p * snd p) pts);
          slope = (n * sxy - sx * sy) / (n * sxx - sx * sx)
      in (slope, (sy - slope * sx) / n))"

text \<open>The points \<open>(x[np.isfinite(y)], y[np.isfinite(y)])\<close> with \<open>x = arange(len)\<close>.\<close>

definition finite_points :: "float list \<Rightarrow> (real \<times> real) list" where
  "finite_points y =
     List.map_filter (\<lambda>(i, v). map_option (\<lambda>a. (real i, a)) v) (zip [0..<length y] y)"

definition add_smoothed_and_regression :: "month_row list \<Rightarrow> int \<Rightarrow> index_row list" where
  "add_smoothed_and_regression index_df smooth_window =
     (let w = nat (max 2 smooth_window);
          y = map Index_Raw index_df;
          n = length index_df;
          smoothed = map (rolling_mean w y) [0..<n];
          std = map (\<lambda>i. fillna 0 (rolling_std w y i)) [0..<n];
          regression =
            (if n \<ge> 2 \<and> length (finite_points y) \<ge> 2
             then (let coef = polyfit1 (finite_points y)
                   in map (\<lambda>i. Some (fst coef * real i + snd coef)) [0..<n])
             else smoothed)
      in map (\<lambda>i. let r = index_df ! i in
                \<lparr>Month = Month r, SalesCount = SalesCount r, MedianPrice = MedianPrice r,
                 ThinMonth = ThinMonth r, Index_Raw = Index_Raw r,
                 Index_Smoothed = smoothed ! i, Index_Std = std ! i,
                 Index_Regression = regression ! i\<rparr>) [0..<n])"

subsection \<open>Index lookup\<close>

datatype index_col = Col_Index_Raw | Col_Index_Smoothed | Col_Index_Regression

fun get_col :: "index_col \<Rightarrow> index_row \<Rightarrow> float" where
  "get_col Col_Index_Raw r = Index_Raw r"
| "get_col Col_Index_Smoothed r = Index_Smoothed r"
| "get_col Col_Index_Regression r = Index_Regression r"

text \<open>The result is (value, month used, resolution mode). \<open>sort_values\<close> is modelled by
  the stable \<open>sort_key\<close>; on a series with one row per month the order is determined.\<close>

definition lookup_index ::
    "index_row list \<Rightarrow> date option \<Rightarrow> index_col \<Rightarrow> float \<times> date option \<times> string" where
  "lookup_index index_df target_date index_col =
     (case target_date of
        None \<Rightarrow> (None, None, ''no_index'')
      | Some t \<Rightarrow>
          if index_df = [] then (None, None, ''no_index'')
          else (let m = month_start t in
            case filter (\<lambda>r. Month r = m) index_df of
              r # _ \<Rightarrow> (get_col index_col r, Some m, ''exact'')
            | [] \<Rightarrow>
               (let prior = sort_key Month (filter (\<lambda>r. Month r \<le> m) index_df) in
                if prior = [] then (None, None, ''no_prior'')
                else (get_col index_col (last prior), Some (Month (last prior)), ''prior''))))"

subsection \<open>Adjustments of the selected comparables\<close>

record adj_row =
  Index_Contract :: float
  Index_Effective :: float
  DaysFromEffective :: int
  AppliedAdj :: bool
  MktAdjPct :: float
  MktAdjDollar :: float
  Category :: string
  Direction :: string

text \<open>The columns \<open>MktAdjPct\<close> and \<open>MktAdj$\<close> as first computed (lines 2433 to 2437),
  before the rows inside the no-adjustment window are overwritten.\<close>

definition mkt_adj_pct :: "float \<Rightarrow> float \<Rightarrow> float" where
  "mkt_adj_pct i_eff i_contract = fmul (pct_change i_eff i_contract) (Some 100)"

definition mkt_adj_dollar :: "float \<Rightarrow> float \<Rightarrow> float" where
  "mkt_adj_dollar sold_price adj_pct = fmul sold_price (fdiv adj_pct (Some 100))"

text \<open>One row of \<open>comps\<close> in \<open>main\<close>, from the contract date and the sold price of the
  comparable. The comparables are rows of the uploaded data, which has a contract date in
  every row.\<close>

definition comp_adjustment ::
    "index_row list \<Rightarrow> index_col \<Rightarrow> date \<Rightarrow> int \<Rightarrow> date \<Rightarrow> float \<Rightarrow> adj_row" where
  "comp_adjustment index_df math_col eff_date no_adj_days contract_date sold_price =
     (let eff_index = fst (lookup_index index_df (Some eff_date) math_col);
          index_contract = fst (lookup_index index_df (Some contract_date) math_col);
          days = days_between contract_date eff_date;
          applied = (days \<ge> no_adj_days);
          adj_pct = (if \<not> applied then Some 0 else mkt_adj_pct eff_index index_contract);
          adj_dollar = (if \<not> applied then Some 0
                        else mkt_adj_dollar sold_price (mkt_adj_pct eff_index index_contract))
      in \<lparr>Index_Contract = index_contract, Index_Effective = eff_index,
          DaysFromEffective = days, AppliedAdj = applied,
          MktAdjPct = adj_pct, MktAdjDollar = adj_dollar,
          Category = categorize_adjustment adj_pct (1 / 2),
          Direction = adjustment_direction adj_pct (1 / 10)\<rparr>)"


subsection \<open>Outlier diagnostics: regression residuals and Cook's distance\<close>

text \<open>The regression is modelled in exact real arithmetic. The code solves the normal
  equations in double precision, so its residuals differ from the ones defined here by
  rounding errors; in particular, on data that lie exactly on a line the residuals are
  exactly zero here and of the size of the rounding errors in the code. The flags are
  computed from the residuals by \<open>flag_rows\<close>, whatever the residuals are.\<close>

type_synonym mat2 = "real \<times> real \<times> real \<times> real"

text \<open>\<open>np.linalg.inv\<close> on a 2 by 2 matrix (rows \<open>(a, b)\<close> and \<open>(c, d)\<close>); \<open>None\<close> is the
  \<open>LinAlgError\<close> raised on a singular matrix.\<close>

definition linalg_inv :: "mat2 \<Rightarrow> mat2 option" where
  "linalg_inv A =
     (case A of (a, b, c, d) \<Rightarrow>
        let det = a * d - b * c in
        if det = 0 then None else Some (d / det, - b / det, - c / det, a / det))"

text \<open>\<open>np.linalg.pinv\<close> where the code calls it: on the matrix \<open>X.T @ X\<close> that
  \<open>inv\<close> rejected, which is symmetric, positive semidefinite and of rank at most one. The
  pseudo-inverse of such a matrix is the matrix divided by the square of its trace.\<close>

definition linalg_pinv :: "mat2 \<Rightarrow> mat2" where
  "linalg_pinv A =
     (case A of (a, b, c, d) \<Rightarrow>
        let t = a + d in
        if t = 0 then (0, 0, 0, 0) else (a / t ^ 2, b / t ^ 2, c / t ^ 2, d / t ^ 2))"

text \<open>\<open>x1\<close>: whole days since the earliest contract date.\<close>

definition elapsed_days :: "date list \<Rightarrow> real list" where
  "elapsed_days ds =
     (let t0 = min_list (map toordinal ds) in map (\<lambda>d. real_of_int (toordinal d - t0)) ds)"

definition log_price :: "real list \<Rightarrow> real list" where
  "log_price ps = map (\<lambda>p. ln (max 1 p)) ps"

text \<open>\<open>X.T @ X\<close> for \<open>X = column_stack([ones(n), x1])\<close>.\<close>

definition XtX :: "real list \<Rightarrow> mat2" where
  "XtX x1 =
     (real (length x1), sum_list x1, sum_list x1, sum_list (map (\<lambda>x. x * x) x1))"

definition XtX_inv :: "real list \<Rightarrow> mat2" where
  "XtX_inv x1 = (case linalg_inv (XtX x1) of Some M \<Rightarrow> M | None \<Rightarrow> linalg_pinv (XtX x1))"

text \<open>\<open>beta = XtX_inv @ (X.T @ y)\<close>.\<close>

definition beta :: "real list \<Rightarrow> real list \<Rightarrow> real \<times> real" where
  "beta x1 y =
     (case XtX_inv x1 of (a, b, c, d) \<Rightarrow>
        let sy = sum_list y; sxy = sum_list (map2 (*) x1 y)
        in (a * sy + b * sxy, c * sy + d * sxy))"

text \<open>\<open>resid = y - X @ beta\<close>.\<close>

definition resid :: "real list \<Rightarrow> real list \<Rightarrow> real list" where
  "resid x1 y = map2 (\<lambda>x v. v - (fst (beta x1 y) + snd (beta x1 y) * x)) x1 y"

text \<open>\<open>H = np.sum((X @ XtX_inv) * X, axis=1)\<close>.\<close>

definition hat_diag :: "real list \<Rightarrow> real list" where
  "hat_diag x1 =
     (case XtX_inv x1 of (a, b, c, d) \<Rightarrow> map (\<lambda>x. (a + x * c) + (b + x * d) * x) x1)"

definition mse :: "real list \<Rightarrow> real" where
  "mse r = sum_list (map (\<lambda>e. e ^ 2) r) / max 1 (real (length r) - 2)"

definition eps :: real where
  "eps = 1 / 10 ^ 12"

text \<open>\<open>cooks = (resid**2 / (p * (mse + eps))) * (H / np.maximum(eps, 1 - H)**2)\<close>
  with \<open>p = 2\<close>.\<close>

definition cooks :: "real list \<Rightarrow> real list \<Rightarrow> real list" where
  "cooks r H = map2 (\<lambda>e h. (e ^ 2 / (2 * (mse r + eps))) * (h / (max eps (1 - h)) ^ 2)) r H"

text \<open>\<open>np.std\<close>: the population standard deviation (\<open>ddof=0\<close>).\<close>

definition np_std :: "real list \<Rightarrow> real" where
  "np_std r = sqrt (sum_list (map (\<lambda>e. (e - mean r) ^ 2) r) / real (length r))"

definition resid_std :: "real list \<Rightarrow> real" where
  "resid_std r = (if np_std r > 0 then np_std r else 1)"

definition studentized :: "real list \<Rightarrow> real list" where
  "studentized r = map (\<lambda>e. \<bar>e\<bar> / resid_std r) r"

record cooks_row =
  RowDate :: date
  RowPrice :: real
  Leverage :: float
  CooksD :: float
  HighLeverage :: bool
  HighCooksD :: bool

text \<open>Lines 974 to 990: the two statistics and the two flags of every record, from the
  residuals \<open>r\<close> and the leverages \<open>H\<close> of the regression.\<close>

definition flag_rows :: "(date \<times> real) list \<Rightarrow> real list \<Rightarrow> real list \<Rightarrow> cooks_row list" where
  "flag_rows out r H =
     (let n = length out;
          cook_thresh = 4 / real n
      in map (\<lambda>i. \<lparr>RowDate = fst (out ! i), RowPrice = snd (out ! i),
                    Leverage = Some (H ! i), CooksD = Some (cooks r H ! i),
                    HighLeverage = (studentized r ! i > 2),
                    HighCooksD = (cooks r H ! i > cook_thresh)\<rparr>) [0..<n])"

definition cooks_distance_time_regression :: "sale list \<Rightarrow> cooks_row list" where
  "cooks_distance_time_regression df =
     (let out = dropna df in
      if length out < 6
      then map (\<lambda>(d, p). \<lparr>RowDate = d, RowPrice = p, Leverage = None, CooksD = None,
                           HighLeverage = False, HighCooksD = False\<rparr>) out
      else
        (let x1 = elapsed_days (map fst out);
             y = log_price (map snd out);
             r = resid x1 y;
             H = hat_diag x1
         in flag_rows out r H))"

subsection \<open>Rounding to double precision\<close>

text \<open>Rounding to the nearest integer, ties to the even one.\<close>

definition rne :: "real \<Rightarrow> int" where
  "rne x = (let f = \<lfloor>x\<rfloor>; r = x - of_int f in
            if r < 1 / 2 then f else if 1 / 2 < r then f + 1 else if even f then f else f + 1)"

text \<open>The number nearest to \<open>x\<close> among those with a significand of 53 bits, ties to the
  even significand: with \<open>e\<close> the binary exponent of \<open>x\<close>, the multiple of \<open>2 ^ (e - 52)\<close>
  nearest to \<open>x\<close>. The exponent is not bounded here.\<close>

definition round53 :: "real \<Rightarrow> real" where
  "round53 x = (if x = 0 then 0
                else (let u = 2 powr of_int (\<lfloor>log 2 \<bar>x\<bar>\<rfloor> - 52) in u * of_int (rne (x / u))))"

text \<open>The result of an operation of IEEE 754 binary64 arithmetic (round to nearest, ties to
  even) whose exact result is \<open>x\<close>, when that result is zero or a normal number. \<open>None\<close>
  stands for the results this model does not cover: an overflow to an infinity and a
  result in the subnormal range.\<close>

definition fl :: "real \<Rightarrow> real option" where
  "fl x = (let r = round53 x in
           if r = 0 \<or> (2 powr (- 1022) \<le> \<bar>r\<bar> \<and> \<bar>r\<bar> < 2 powr 1024) then Some r else None)"

text \<open>The numbers the model takes as arguments: zero and the normal doubles.\<close>

definition is_double :: "real \<Rightarrow> bool" where
  "is_double x = (fl x = Some x)"

subsection \<open>Outlier diagnostics: interquartile range\<close>

text \<open>The linear interpolation of numpy, \<open>_lerp(a, b, t)\<close>: \<open>a + (b - a) * t\<close>, and
  \<open>b - (b - a) * (1 - t)\<close> where \<open>t \<ge> 0.5\<close>, each operation rounded.\<close>

definition lerp :: "real \<Rightarrow> real \<Rightarrow> real \<Rightarrow> real option" where
  "lerp a b t =
     do { diff_b_a \<leftarrow> fl (b - a);
          if t \<ge> 1 / 2
          then do { s \<leftarrow> fl (1 - t); m \<leftarrow> fl (diff_b_a * s); fl (b - m) }
          else do { m \<leftarrow> fl (diff_b_a * t); fl (a + m) } }"

text \<open>\<open>Series.quantile(q)\<close> on the sorted values \<open>v\<close> that are not NaN, at least one:
  linear interpolation between the order statistics around the position \<open>(n - 1) * q\<close>.
  For the two quantiles the rule takes, \<open>q = 0.25\<close> and \<open>q = 0.75\<close>, the position and its
  fractional part are multiples of a quarter and are computed without rounding.\<close>

definition quantile :: "real list \<Rightarrow> real \<Rightarrow> real option" where
  "quantile v q =
     (let n = length v;
          h = real (n - 1) * q;
          lo = nat \<lfloor>h\<rfloor>;
          hi = min (lo + 1) (n - 1)
      in lerp (v ! lo) (v ! hi) (h - real lo))"

text \<open>The flags, one per price. When no price is left after dropping NaN both quartiles are
  NaN and every comparison is false. The result is \<open>None\<close> when an argument is not a double
  or an operation leaves the range that \<open>fl\<close> covers.\<close>

definition compute_iqr_flags_cached :: "float list \<Rightarrow> real \<Rightarrow> bool list option" where
  "compute_iqr_flags_cached sold_prices k =
     (if \<not> (is_double k \<and> list_all is_double (observations sold_prices)) then None
      else
       (let v = sort (observations sold_prices) in
        if v = [] then Some (map (\<lambda>x. False) sold_prices)
        else do { q1 \<leftarrow> quantile v (1 / 4);
                  q3 \<leftarrow> quantile v (3 / 4);
                  iqr \<leftarrow> fl (q3 - q1);
                  w \<leftarrow> fl (k * iqr);
                  lo \<leftarrow> fl (q1 - w);
                  hi \<leftarrow> fl (q3 + w);
                  Some (map (\<lambda>x. flt x (Some lo) \<or> fgt x (Some hi)) sold_prices) }))"


subsection \<open>Auxiliary definitions for the statements and their instances\<close>

text \<open>One step of the index loop, as a function of the previous median, the current median
  and the previous index.\<close>

definition chain_step :: "float \<Rightarrow> float \<Rightarrow> float \<Rightarrow> float" where
  "chain_step prev cur prev_idx =
     (if isna prev \<or> prev = Some 0 \<or> isna cur then prev_idx else fmul prev_idx (fdiv cur prev))"

text \<open>Scenario A of the specification.\<close>

definition scenario_A :: "sale list" where
  "scenario_A = [\<lparr>ContractDate = Some (2024, 1, 1), SoldPrice = Some 300000\<rparr>,
                 \<lparr>ContractDate = Some (2024, 2, 1), SoldPrice = Some 310000\<rparr>]"

text \<open>An index series with buckets for January and May 2024 (scenario B of the
  specification reads its two index values from it).\<close>

definition scenario_B :: "index_row list" where
  "scenario_B =
     [\<lparr>Month = (2024, 1, 1), SalesCount = 3, MedianPrice = Some 300000, ThinMonth = False,
       Index_Raw = Some (102 / 100), Index_Smoothed = Some (103 / 100), Index_Std = Some 0,
       Index_Regression = Some (102 / 100)\<rparr>,
      \<lparr>Month = (2024, 5, 1), SalesCount = 4, MedianPrice = Some 310000, ThinMonth = False,
       Index_Raw = Some (105 / 100), Index_Smoothed = Some (104 / 100), Index_Std = Some 0,
       Index_Regression = Some (105 / 100)\<rparr>]"

text \<open>The index series that \<open>main\<close> builds from the two sales of scenario A with the
  default settings (at least 5 sales per month, smoothing window 6).\<close>

definition scenario_A_index_df :: "index_row list" where
  "scenario_A_index_df = add_smoothed_and_regression (build_monthly_index_price scenario_A 5) 6"

text \<open>Scenario D of the specification: four prices close together and one ten times
  as high.\<close>

definition scenario_D :: "float list" where
  "scenario_D = [Some 300000, Some 310000, Some 320000, Some 330000, Some 3200000]"

text \<open>The multiples of \<open>2 ^ g\<close>.\<close>

definition on_grid :: "int \<Rightarrow> real \<Rightarrow> bool" where
  "on_grid g x = (\<exists>m :: int. x = of_int m * 2 powr of_int g)"

text \<open>The doubles that are zero or of a magnitude between \<open>2 ^ - b\<close> and \<open>2 ^ b\<close>.\<close>

definition moderate :: "int \<Rightarrow> real \<Rightarrow> bool" where
  "moderate b x =
     (is_double x \<and> (x = 0 \<or> 2 powr of_int (- b) \<le> \<bar>x\<bar>) \<and> \<bar>x\<bar> \<le> 2 powr of_int b)"

text \<open>Multiplying a price by a constant; NaN stays NaN.\<close>

definition scale :: "real \<Rightarrow> float \<Rightarrow> float" where
  "scale c x = map_option (\<lambda>a. c * a) x"

text \<open>A series of two buckets, the second without a raw index.\<close>

definition gap_series :: "month_row list" where
  "gap_series =
     [\<lparr>Month = (2024, 1, 1), SalesCount = 2, MedianPrice = Some 300000, ThinMonth = True,
       Index_Raw = Some 1\<rparr>,
      \<lparr>Month = (2024, 2, 1), SalesCount = 1, MedianPrice = None, ThinMonth = True,
       Index_Raw = None\<rparr>]"

text \<open>The sum of squared errors of the line \<open>a + b * x\<close> on the points \<open>(x, y)\<close>: what an
  ordinary least-squares fit minimises.\<close>

definition sse :: "real list \<Rightarrow> real list \<Rightarrow> real \<Rightarrow> real \<Rightarrow> real" where
  "sse x y a b = sum_list (map2 (\<lambda>x v. (v - (a + b * x)) ^ 2) x y)"

text \<open>The statistic of the regression-residual rule as section 4.4 of the specification
  writes it, \<open>D = (residual ^ 2 / (p * mse)) * (H / (1 - H) ^ 2)\<close> with \<open>p = 2\<close>: the value of
  \<open>cooks\<close> without its two guards \<open>eps\<close>.\<close>

definition cooks_spec :: "real list \<Rightarrow> real list \<Rightarrow> real list" where
  "cooks_spec r H = map2 (\<lambda>e h. (e ^ 2 / (2 * mse r)) * (h / (1 - h) ^ 2)) r H"

text \<open>Six sales on six consecutive days, five at 300000.00 and the last at 300000.01.\<close>

definition near_constant :: "sale list" where
  "near_constant =
     [\<lparr>ContractDate = Some (2024, 1, 1), SoldPrice = Some 300000\<rparr>,
      \<lparr>ContractDate = Some (2024, 1, 2), SoldPrice = Some 300000\<rparr>,
      \<lparr>ContractDate = Some (2024, 1, 3), SoldPrice = Some 300000\<rparr>,
      \<lparr>ContractDate = Some (2024, 1, 4), SoldPrice = Some 300000\<rparr>,
      \<lparr>ContractDate = Some (2024, 1, 5), SoldPrice = Some 300000\<rparr>,
      \<lparr>ContractDate = Some (2024, 1, 6), SoldPrice = Some (30000001 / 100)\<rparr>]"

text \<open>Six sales on six consecutive days at 100000, except the third, at 200000.\<close>

definition one_outlier :: "sale list" where
  "one_outlier =
     [\<lparr>ContractDate = Some (2024, 1, 1), SoldPrice = Some 100000\<rparr>,
      \<lparr>ContractDate = Some (2024, 1, 2), SoldPrice = Some 100000\<rparr>,
      \<lparr>ContractDate = Some (2024, 1, 3), SoldPrice = Some 200000\<rparr>,
      \<lparr>ContractDate = Some (2024, 1, 4), SoldPrice = Some 100000\<rparr>,
      \<lparr>ContractDate = Some (2024, 1, 5), SoldPrice = Some 100000\<rparr>,
      \<lparr>ContractDate = Some (2024, 1, 6), SoldPrice = Some 100000\<rparr>]"


text \<open>Six sales whose price is exactly \<open>100000 + 100000 * d\<close> on day \<open>d\<close> after the first
  (days 0, 1, 3, 7, 15 and 31).\<close>

definition linear_price_trend :: "sale list" where
  "linear_price_trend =
     [\<lparr>ContractDate = Some (2024, 1, 1), SoldPrice = Some 100000\<rparr>,
      \<lparr>ContractDate = Some (2024, 1, 2), SoldPrice = Some 200000\<rparr>,
      \<lparr>ContractDate = Some (2024, 1, 4), SoldPrice = Some 400000\<rparr>,
      \<lparr>ContractDate = Some (2024, 1, 8), SoldPrice = Some 800000\<rparr>,
      \<lparr>ContractDate = Some (2024, 1, 16), SoldPrice = Some 1600000\<rparr>,
      \<lparr>ContractDate = Some (2024, 2, 1), SoldPrice = Some 3200000\<rparr>]"

section \<open>Properties\<close>

subsection \<open>The no-adjustment gate\<close>

lemma toordinal_2024_03_01: "toordinal (2024, 3, 1) = 738946"
  by (simp add: toordinal_def days_before_year_def days_before_month_def is_leap_def)

lemma toordinal_2024_03_31: "toordinal (2024, 3, 31) = 738976"
  by (simp add: toordinal_def days_before_year_def days_before_month_def is_leap_def)

text \<open>
  Claim C3. For every comparable, \<open>AppliedAdj\<close> is true exactly when \<open>DaysFromEffective\<close>,
  the absolute whole-day difference between the contract date and the effective date, is
  at least \<open>no_adj_days\<close>; and whenever \<open>AppliedAdj\<close> is false, the percent adjustment and
  the dollar adjustment are both exactly 0.
\<close>

theorem adjustment_gate:
  "AppliedAdj (comp_adjustment index_df math_col eff_date no_adj_days contract_date sold_price)
     = (DaysFromEffective
          (comp_adjustment index_df math_col eff_date no_adj_days contract_date sold_price)
        \<ge> no_adj_days)
   \<and> DaysFromEffective
       (comp_adjustment index_df math_col eff_date no_adj_days contract_date sold_price)
     = \<bar>toordinal contract_date - toordinal eff_date\<bar>
   \<and> (\<not> AppliedAdj
          (comp_adjustment index_df math_col eff_date no_adj_days contract_date sold_price)
      \<longrightarrow> MktAdjPct
            (comp_adjustment index_df math_col eff_date no_adj_days contract_date sold_price)
          = Some 0
        \<and> MktAdjDollar
            (comp_adjustment index_df math_col eff_date no_adj_days contract_date sold_price)
          = Some 0)"
  by (simp add: comp_adjustment_def Let_def days_between_def)

text \<open>A comparable 30 days from the effective date, with a threshold of 90 days.\<close>

theorem adjustment_gate_witness:
  "\<not> AppliedAdj (comp_adjustment [] Col_Index_Raw (2024, 3, 31) 90 (2024, 3, 1) (Some 400000))
   \<and> DaysFromEffective
       (comp_adjustment [] Col_Index_Raw (2024, 3, 31) 90 (2024, 3, 1) (Some 400000)) = 30
   \<and> MktAdjPct
       (comp_adjustment [] Col_Index_Raw (2024, 3, 31) 90 (2024, 3, 1) (Some 400000)) = Some 0
   \<and> MktAdjDollar
       (comp_adjustment [] Col_Index_Raw (2024, 3, 31) 90 (2024, 3, 1) (Some 400000)) = Some 0"
  using adjustment_gate [of "[]" Col_Index_Raw "(2024, 3, 31)" 90 "(2024, 3, 1)" "Some 400000"]
  by (simp add: toordinal_2024_03_01 toordinal_2024_03_31)


subsection \<open>The monthly index\<close>

lemma index_loop_length: "length (index_loop p v rs) = length rs"
  by (induction rs arbitrary: p v) (simp_all add: Let_def)

lemma index_loop_frame:
  "i < length rs \<Longrightarrow>
     Month (index_loop p v rs ! i) = Month (rs ! i)
   \<and> SalesCount (index_loop p v rs ! i) = SalesCount (rs ! i)
   \<and> MedianPrice (index_loop p v rs ! i) = MedianPrice (rs ! i)
   \<and> ThinMonth (index_loop p v rs ! i) = ThinMonth (rs ! i)"
proof (induction rs arbitrary: p v i)
  case Nil
  then show ?case by simp
next
  case (Cons r rs)
  then show ?case by (cases i) (simp_all add: Let_def)
qed

lemma index_loop_step:
  "Suc i < length rs \<Longrightarrow>
     Index_Raw (index_loop p v rs ! Suc i) =
       chain_step (MedianPrice (rs ! i)) (MedianPrice (rs ! Suc i)) (Index_Raw (index_loop p v rs ! i))"
proof (induction rs arbitrary: p v i)
  case Nil
  then show ?case by simp
next
  case (Cons r rs)
  show ?case
  proof (cases i)
    case 0
    with Cons.prems obtain r' rs' where rs: "rs = r' # rs'" by (cases rs) auto
    show ?thesis unfolding 0 rs by (simp add: Let_def chain_step_def)
  next
    case (Suc j)
    with Cons.prems have "Suc j < length rs" by simp
    from Cons.IH [OF this] show ?thesis unfolding Suc by (simp add: Let_def)
  qed
qed

lemma chain_step_finite: "v \<noteq> None \<Longrightarrow> chain_step p c v \<noteq> None"
  by (cases p; cases c; cases v) (auto simp: chain_step_def isna_def)

lemma index_loop_finite:
  "v \<noteq> None \<Longrightarrow> i < length rs \<Longrightarrow> Index_Raw (index_loop p v rs ! i) \<noteq> None"
proof (induction rs arbitrary: p v i)
  case Nil
  then show ?case by simp
next
  case (Cons r rs)
  have c: "chain_step p (MedianPrice r) v \<noteq> None" using Cons.prems(1) by (rule chain_step_finite)
  have e: "index_loop p v (r # rs)
         = r\<lparr>Index_Raw := chain_step p (MedianPrice r) v\<rparr>
           # index_loop (MedianPrice r) (chain_step p (MedianPrice r) v) rs"
    by (simp add: Let_def chain_step_def)
  show ?case
  proof (cases i)
    case 0
    then show ?thesis using c by (simp add: e del: index_loop.simps)
  next
    case (Suc j)
    from Cons.IH [OF c, of j] Cons.prems(2) show ?thesis
      unfolding Suc by (simp add: e del: index_loop.simps)
  qed
qed

lemma monthly_buckets_months:
  "map Month (monthly_buckets d k) = sort (remdups (map (\<lambda>r. month_start (fst r)) d))"
  by (simp add: monthly_buckets_def Let_def comp_def)

lemma monthly_buckets_Nil: "monthly_buckets d k = [] \<longleftrightarrow> d = []"
proof -
  have "length (monthly_buckets d k) = length (remdups (map (\<lambda>r. month_start (fst r)) d))"
    by (simp add: monthly_buckets_def)
  then have "length (monthly_buckets d k) = 0 \<longleftrightarrow> d = []"
    by (simp only: length_0_conv remdups_eq_nil_iff map_is_Nil_conv)
  then show ?thesis by simp
qed

lemma set_index_raw_length: "length (set_index_raw m) = length m"
  by (cases m) (simp_all add: set_index_raw_def index_loop_length)

lemma set_index_raw_frame:
  assumes "i < length m"
  shows "Month (set_index_raw m ! i) = Month (m ! i)
       \<and> SalesCount (set_index_raw m ! i) = SalesCount (m ! i)
       \<and> MedianPrice (set_index_raw m ! i) = MedianPrice (m ! i)
       \<and> ThinMonth (set_index_raw m ! i) = ThinMonth (m ! i)"
proof -
  from assms obtain r rs where m: "m = r # rs" by (cases m) auto
  show ?thesis
  proof (cases i)
    case 0
    then show ?thesis by (simp add: m set_index_raw_def)
  next
    case (Suc j)
    with assms m have "j < length rs" by simp
    from index_loop_frame [OF this, of "MedianPrice r" "Some 1"]
    show ?thesis by (simp add: m Suc set_index_raw_def)
  qed
qed

lemma set_index_raw_months: "map Month (set_index_raw m) = map Month m"
  by (rule nth_equalityI) (simp_all add: set_index_raw_length set_index_raw_frame)

lemma set_index_raw_first: "m \<noteq> [] \<Longrightarrow> Index_Raw (set_index_raw m ! 0) = Some 1"
  by (cases m) (simp_all add: set_index_raw_def)

lemma set_index_raw_step:
  assumes "0 < i" "i < length m"
  shows "Index_Raw (set_index_raw m ! i) =
           chain_step (MedianPrice (m ! (i - 1))) (MedianPrice (m ! i))
             (Index_Raw (set_index_raw m ! (i - 1)))"
proof -
  from assms obtain r rs where m: "m = r # rs" by (cases m) auto
  from assms obtain j where j: "i = Suc j" by (cases i) auto
  show ?thesis
  proof (cases j)
    case 0
    with assms m j obtain r' rs' where rs: "rs = r' # rs'" by (cases rs) auto
    show ?thesis by (simp add: m j 0 rs set_index_raw_def Let_def chain_step_def)
  next
    case (Suc k)
    with assms m j have "Suc k < length rs" by simp
    from index_loop_step [OF this, of "MedianPrice r" "Some 1"]
    show ?thesis by (simp add: m j Suc set_index_raw_def)
  qed
qed

lemma set_index_raw_finite:
  assumes "i < length m"
  shows "Index_Raw (set_index_raw m ! i) \<noteq> None"
proof -
  from assms obtain r rs where m: "m = r # rs" by (cases m) auto
  show ?thesis
  proof (cases i)
    case 0
    then show ?thesis by (simp add: m set_index_raw_def)
  next
    case (Suc j)
    with assms m have "j < length rs" by simp
    from index_loop_finite [OF _ this, of "Some 1" "MedianPrice r"]
    show ?thesis by (simp add: m Suc set_index_raw_def)
  qed
qed

text \<open>
  Claim C1. For every record set with at least one record that has a date and a price, the
  monthly index has at least one bucket, its buckets are strictly ascending by month, the
  first bucket has \<open>Index_Raw\<close> exactly 1, and every later bucket carries the previous
  index forward unchanged when the previous median is missing or zero or the current median
  is missing, and is otherwise the previous index times the ratio of the current median to
  the previous one. No index value is NaN.
\<close>

theorem monthly_index_chain:
  assumes "dropna df \<noteq> []"
  shows "build_monthly_index_price df k \<noteq> []
    \<and> sorted_wrt (<) (map Month (build_monthly_index_price df k))
    \<and> Index_Raw (build_monthly_index_price df k ! 0) = Some 1
    \<and> (\<forall>i. 0 < i \<and> i < length (build_monthly_index_price df k) \<longrightarrow>
         Index_Raw (build_monthly_index_price df k ! i) =
           (if isna (MedianPrice (build_monthly_index_price df k ! (i - 1)))
               \<or> MedianPrice (build_monthly_index_price df k ! (i - 1)) = Some 0
               \<or> isna (MedianPrice (build_monthly_index_price df k ! i))
            then Index_Raw (build_monthly_index_price df k ! (i - 1))
            else fmul (Index_Raw (build_monthly_index_price df k ! (i - 1)))
                   (fdiv (MedianPrice (build_monthly_index_price df k ! i))
                         (MedianPrice (build_monthly_index_price df k ! (i - 1))))))
    \<and> (\<forall>i < length (build_monthly_index_price df k).
         Index_Raw (build_monthly_index_price df k ! i) \<noteq> None)"
proof -
  define b where "b = monthly_buckets (dropna df) k"
  define m where "m = set_index_raw b"
  have bm: "build_monthly_index_price df k = m"
    by (simp add: build_monthly_index_price_def m_def b_def)
  have ne: "b \<noteq> []" using assms by (simp add: b_def monthly_buckets_Nil)
  have len: "length m = length b" unfolding m_def by (rule set_index_raw_length)
  have 1: "m \<noteq> []" using ne len by auto
  have "sorted_wrt (<) (map Month b)"
    unfolding b_def monthly_buckets_months by (simp add: strict_sorted_iff)
  then have 2: "sorted_wrt (<) (map Month m)" by (simp add: m_def set_index_raw_months)
  have 3: "Index_Raw (m ! 0) = Some 1" unfolding m_def using ne by (rule set_index_raw_first)
  have 4: "\<forall>i. 0 < i \<and> i < length m \<longrightarrow>
         Index_Raw (m ! i) =
           (if isna (MedianPrice (m ! (i - 1))) \<or> MedianPrice (m ! (i - 1)) = Some 0
               \<or> isna (MedianPrice (m ! i))
            then Index_Raw (m ! (i - 1))
            else fmul (Index_Raw (m ! (i - 1))) (fdiv (MedianPrice (m ! i)) (MedianPrice (m ! (i - 1)))))"
  proof (intro allI impI)
    fix i assume a: "0 < i \<and> i < length m"
    then have i: "i < length b" and i1: "i - 1 < length b" by (auto simp: len)
    have e1: "MedianPrice (m ! i) = MedianPrice (b ! i)"
      unfolding m_def using set_index_raw_frame [OF i] by simp
    have e2: "MedianPrice (m ! (i - 1)) = MedianPrice (b ! (i - 1))"
      unfolding m_def using set_index_raw_frame [OF i1] by simp
    have "Index_Raw (m ! i) =
            chain_step (MedianPrice (b ! (i - 1))) (MedianPrice (b ! i)) (Index_Raw (m ! (i - 1)))"
      unfolding m_def using a i by (intro set_index_raw_step) simp_all
    then show "Index_Raw (m ! i) =
           (if isna (MedianPrice (m ! (i - 1))) \<or> MedianPrice (m ! (i - 1)) = Some 0
               \<or> isna (MedianPrice (m ! i))
            then Index_Raw (m ! (i - 1))
            else fmul (Index_Raw (m ! (i - 1))) (fdiv (MedianPrice (m ! i)) (MedianPrice (m ! (i - 1)))))"
      unfolding e1 e2 chain_step_def .
  qed
  have 5: "\<forall>i < length m. Index_Raw (m ! i) \<noteq> None"
    unfolding m_def using len m_def by (simp add: set_index_raw_finite)
  show ?thesis unfolding bm by (intro conjI 1 2 3 4 5)
qed

lemma scenario_A_index:
  "build_monthly_index_price scenario_A 1 =
     [\<lparr>Month = (2024, 1, 1), SalesCount = 1, MedianPrice = Some 300000, ThinMonth = False,
       Index_Raw = Some 1\<rparr>,
      \<lparr>Month = (2024, 2, 1), SalesCount = 1, MedianPrice = Some 310000, ThinMonth = False,
       Index_Raw = Some (31 / 30)\<rparr>]"
  by (simp add: build_monthly_index_price_def scenario_A_def dropna_def List.map_filter_def
      monthly_buckets_def month_start_def median_def set_index_raw_def isna_def Let_def)

text \<open>Two sales, of 300000 in January and 310000 in February: the index is 1 and 31/30.\<close>

theorem monthly_index_chain_witness:
  "dropna scenario_A \<noteq> []
   \<and> Index_Raw (build_monthly_index_price scenario_A 1 ! 0) = Some 1
   \<and> Index_Raw (build_monthly_index_price scenario_A 1 ! 1) = Some (31 / 30)"
proof -
  have h: "dropna scenario_A \<noteq> []"
    by (simp add: scenario_A_def dropna_def List.map_filter_def)
  from monthly_index_chain [OF h, of 1] h show ?thesis
    by (simp add: scenario_A_index)
qed

lemma index_loop_thin:
  "index_loop p v (map (\<lambda>r. r\<lparr>ThinMonth := int (SalesCount r) < k\<rparr>) rs)
     = map (\<lambda>r. r\<lparr>ThinMonth := int (SalesCount r) < k\<rparr>) (index_loop p v rs)"
  by (induction rs arbitrary: p v) (simp_all add: Let_def)

lemma monthly_buckets_thin:
  "monthly_buckets d k2 = map (\<lambda>r. r\<lparr>ThinMonth := int (SalesCount r) < k2\<rparr>) (monthly_buckets d k1)"
  by (simp add: monthly_buckets_def Let_def)

text \<open>
  Claim C8. For every record set and any two values of \<open>min_sales_per_month\<close>, the two
  series have the same months and agree on \<open>SalesCount\<close>, \<open>MedianPrice\<close> and \<open>Index_Raw\<close>
  bucket by bucket: the second series is the first with only the \<open>ThinMonth\<close> flag
  recomputed, so the parameter never removes a month.
\<close>

theorem min_sales_only_thin_flag:
  "build_monthly_index_price df k2
     = map (\<lambda>r. r\<lparr>ThinMonth := int (SalesCount r) < k2\<rparr>) (build_monthly_index_price df k1)
   \<and> map (\<lambda>r. (Month r, SalesCount r, MedianPrice r, Index_Raw r)) (build_monthly_index_price df k2)
     = map (\<lambda>r. (Month r, SalesCount r, MedianPrice r, Index_Raw r)) (build_monthly_index_price df k1)"
proof -
  have e: "build_monthly_index_price df k2
     = map (\<lambda>r. r\<lparr>ThinMonth := int (SalesCount r) < k2\<rparr>) (build_monthly_index_price df k1)"
    unfolding build_monthly_index_price_def monthly_buckets_thin [of "dropna df" k2 k1]
    by (cases "monthly_buckets (dropna df) k1") (simp_all add: set_index_raw_def index_loop_thin)
  show ?thesis unfolding e by (simp add: comp_def)
qed



subsection \<open>Index lookup\<close>

lemma last_sort_key_max:
  fixes f :: "'a \<Rightarrow> 'b::linorder"
  assumes "xs \<noteq> []"
  shows "last (sort_key f xs) \<in> set xs \<and> (\<forall>x\<in>set xs. f x \<le> f (last (sort_key f xs)))"
proof -
  define ys where "ys = sort_key f xs"
  have ne: "ys \<noteq> []" using assms by (auto simp: ys_def dest: arg_cong [where f = length])
  have s: "sorted (map f ys)" by (simp add: ys_def)
  have st: "set ys = set xs" by (simp add: ys_def)
  have l: "last ys = ys ! (length ys - 1)" using ne by (rule last_conv_nth)
  have 1: "last ys \<in> set xs" using ne st last_in_set by blast
  have 2: "f x \<le> f (last ys)" if "x \<in> set xs" for x
  proof -
    from that st have "x \<in> set ys" by simp
    then obtain i where i: "i < length ys" "ys ! i = x" unfolding in_set_conv_nth by blast
    have "map f ys ! i \<le> map f ys ! (length ys - 1)"
      using s i(1) by (intro sorted_nth_mono) auto
    then show ?thesis using i ne by (simp add: l)
  qed
  show ?thesis using 1 2 unfolding ys_def by blast
qed

lemma filter_head:
  assumes "filter P xs = r # rest"
  shows "r \<in> set xs \<and> P r"
proof -
  have "r \<in> set (filter P xs)" by (simp add: assms)
  then show ?thesis by simp
qed

lemma month_unique:
  assumes "distinct (map Month xs)" "r \<in> set xs" "r' \<in> set xs" "Month r = Month r'"
  shows "r = r'"
  using assms by (meson distinct_map inj_onD)

text \<open>
  Claim C2. For every index series (one row per month), target date and index column, the
  lookup returns the value of the bucket of the target's month with mode \<open>exact\<close> when that
  bucket exists; otherwise the value of the most recent bucket whose month is at most the
  target month, with mode \<open>prior\<close>; NaN with mode \<open>no_prior\<close> when no bucket is at or before
  the target month; and NaN with mode \<open>no_index\<close> when the series is empty.
\<close>

theorem lookup_index_resolution:
  assumes "distinct (map Month index_df)"
  shows "(\<forall>r\<in>set index_df. Month r = month_start t \<longrightarrow>
            lookup_index index_df (Some t) c = (get_col c r, Some (month_start t), ''exact''))
       \<and> ((\<forall>r\<in>set index_df. Month r \<noteq> month_start t) \<longrightarrow>
            (\<forall>r\<in>set index_df.
               Month r \<le> month_start t
               \<and> (\<forall>r'\<in>set index_df. Month r' \<le> month_start t \<longrightarrow> Month r' \<le> Month r)
               \<longrightarrow> lookup_index index_df (Some t) c = (get_col c r, Some (Month r), ''prior'')))
       \<and> (index_df \<noteq> [] \<and> (\<forall>r\<in>set index_df. \<not> Month r \<le> month_start t) \<longrightarrow>
            lookup_index index_df (Some t) c = (None, None, ''no_prior''))
       \<and> (index_df = [] \<longrightarrow> lookup_index index_df (Some t) c = (None, None, ''no_index''))"
proof (intro conjI ballI impI)
  fix r assume r: "r \<in> set index_df" "Month r = month_start t"
  then have "r \<in> set (filter (\<lambda>r. Month r = month_start t) index_df)" by simp
  then obtain r' rest where f: "filter (\<lambda>r. Month r = month_start t) index_df = r' # rest"
    by (cases "filter (\<lambda>r. Month r = month_start t) index_df") auto
  from filter_head [OF f] have "r' \<in> set index_df" "Month r' = month_start t" by simp_all
  with r assms have "r' = r" by (metis month_unique)
  then show "lookup_index index_df (Some t) c = (get_col c r, Some (month_start t), ''exact'')"
    using r(1) f by (auto simp: lookup_index_def Let_def)
next
  fix r
  assume none: "\<forall>r\<in>set index_df. Month r \<noteq> month_start t"
    and r: "r \<in> set index_df"
    and mx: "Month r \<le> month_start t
             \<and> (\<forall>r'\<in>set index_df. Month r' \<le> month_start t \<longrightarrow> Month r' \<le> Month r)"
  define ps where "ps = filter (\<lambda>r. Month r \<le> month_start t) index_df"
  have f: "filter (\<lambda>r. Month r = month_start t) index_df = []"
    using none by (simp add: filter_empty_conv)
  have rp: "r \<in> set ps" using r mx by (simp add: ps_def)
  then have ne: "ps \<noteq> []" by auto
  from last_sort_key_max [OF ne, of Month]
  have l: "last (sort_key Month ps) \<in> set ps" "Month r \<le> Month (last (sort_key Month ps))"
    using rp by auto
  from l(1) have l2: "last (sort_key Month ps) \<in> set index_df"
    "Month (last (sort_key Month ps)) \<le> month_start t" by (simp_all add: ps_def)
  with mx have "Month (last (sort_key Month ps)) \<le> Month r" by blast
  with l(2) have "Month (last (sort_key Month ps)) = Month r" by simp
  with assms l2(1) r have e: "last (sort_key Month ps) = r" by (metis month_unique)
  have sne: "sort_key Month ps \<noteq> []" using ne by (auto dest: arg_cong [where f = length])
  show "lookup_index index_df (Some t) c = (get_col c r, Some (Month r), ''prior'')"
    using r f sne e by (auto simp: lookup_index_def Let_def ps_def)
next
  assume a: "index_df \<noteq> [] \<and> (\<forall>r\<in>set index_df. \<not> Month r \<le> month_start t)"
  then have f: "filter (\<lambda>r. Month r = month_start t) index_df = []"
    by (auto simp: filter_empty_conv)
  from a have p: "filter (\<lambda>r. Month r \<le> month_start t) index_df = []"
    by (auto simp: filter_empty_conv)
  show "lookup_index index_df (Some t) c = (None, None, ''no_prior'')"
    using a f p by (simp add: lookup_index_def Let_def)
next
  assume "index_df = []"
  then show "lookup_index index_df (Some t) c = (None, None, ''no_index'')"
    by (simp add: lookup_index_def)
qed

text \<open>A series with buckets for January and May 2024, looked up in May, in March and in
  December 2023, and the empty series.\<close>

theorem lookup_index_resolution_witness:
  "distinct (map Month scenario_B)
   \<and> lookup_index scenario_B (Some (2024, 5, 14)) Col_Index_Raw = (Some (105 / 100), Some (2024, 5, 1), ''exact'')
   \<and> lookup_index scenario_B (Some (2024, 3, 9)) Col_Index_Smoothed = (Some (103 / 100), Some (2024, 1, 1), ''prior'')
   \<and> lookup_index scenario_B (Some (2023, 12, 31)) Col_Index_Raw = (None, None, ''no_prior'')
   \<and> lookup_index [] (Some (2024, 5, 14)) Col_Index_Raw = (None, None, ''no_index'')"
proof -
  have d: "distinct (map Month scenario_B)" by (simp add: scenario_B_def)
  have d0: "distinct (map Month ([] :: index_row list))" by simp
  from lookup_index_resolution [OF d, of "(2024, 5, 14)" Col_Index_Raw]
       lookup_index_resolution [OF d, of "(2024, 3, 9)" Col_Index_Smoothed]
       lookup_index_resolution [OF d, of "(2023, 12, 31)" Col_Index_Raw]
       lookup_index_resolution [OF d0, of "(2024, 5, 14)" Col_Index_Raw]
  show ?thesis using d by (simp add: scenario_B_def month_start_def)
qed


subsection \<open>Undefined adjustments and the precedence of the gate\<close>

lemma comp_no_index:
  "comp_adjustment [] Col_Index_Raw (2024, 3, 31) 90 (2024, 3, 1) (Some 400000)
   = \<lparr>Index_Contract = None, Index_Effective = None, DaysFromEffective = 30, AppliedAdj = False,
      MktAdjPct = Some 0, MktAdjDollar = Some 0, Category = ''Stable'',
      Direction = ''NO ADJUSTMENT''\<rparr>"
  by (simp add: comp_adjustment_def Let_def lookup_index_def days_between_def
      toordinal_2024_03_01 toordinal_2024_03_31 categorize_adjustment_def
      adjustment_direction_def isna_def)

lemma toordinal_2024_01_15: "toordinal (2024, 1, 15) = 738900"
  by (simp add: toordinal_def days_before_year_def days_before_month_def is_leap_def)

lemma toordinal_2024_05_14: "toordinal (2024, 5, 14) = 739020"
  by (simp add: toordinal_def days_before_year_def days_before_month_def is_leap_def)

lemma comp_scenario_B:
  "comp_adjustment scenario_B Col_Index_Raw (2024, 5, 14) 90 (2024, 1, 15) (Some 400000)
   = \<lparr>Index_Contract = Some (102 / 100), Index_Effective = Some (105 / 100),
      DaysFromEffective = 120, AppliedAdj = True,
      MktAdjPct = Some (50 / 17), MktAdjDollar = Some (200000 / 17), Category = ''Increasing'',
      Direction = ''UPWARD''\<rparr>"
  by (simp add: comp_adjustment_def Let_def lookup_index_def days_between_def scenario_B_def
      month_start_def toordinal_2024_01_15 toordinal_2024_05_14 categorize_adjustment_def
      adjustment_direction_def isna_def mkt_adj_pct_def mkt_adj_dollar_def pct_change_def)

text \<open>
  Claim C10. When \<open>AppliedAdj\<close> is false, the forced zero takes precedence over the
  undefined adjustment: for a comparable inside the no-adjustment window whose contract or
  effective index is unavailable, or whose contract index is zero, the adjustment as first
  computed is NaN, but the reported percent and dollar adjustments are exactly 0 and the
  labels are \<open>Stable\<close> and \<open>NO ADJUSTMENT\<close>, not \<open>N/A\<close>.
\<close>

theorem zeroing_precedence:
  "\<not> AppliedAdj (comp_adjustment index_df math_col eff_date no_adj_days contract_date sold_price)
   \<Longrightarrow> isna (Index_Contract
               (comp_adjustment index_df math_col eff_date no_adj_days contract_date sold_price))
       \<or> isna (Index_Effective
               (comp_adjustment index_df math_col eff_date no_adj_days contract_date sold_price))
       \<or> Index_Contract
           (comp_adjustment index_df math_col eff_date no_adj_days contract_date sold_price)
         = Some 0
   \<Longrightarrow> mkt_adj_pct
         (Index_Effective
            (comp_adjustment index_df math_col eff_date no_adj_days contract_date sold_price))
         (Index_Contract
            (comp_adjustment index_df math_col eff_date no_adj_days contract_date sold_price))
       = None
     \<and> MktAdjPct
         (comp_adjustment index_df math_col eff_date no_adj_days contract_date sold_price)
       = Some 0
     \<and> MktAdjDollar
         (comp_adjustment index_df math_col eff_date no_adj_days contract_date sold_price)
       = Some 0
     \<and> Category
         (comp_adjustment index_df math_col eff_date no_adj_days contract_date sold_price)
       = ''Stable''
     \<and> Direction
         (comp_adjustment index_df math_col eff_date no_adj_days contract_date sold_price)
       = ''NO ADJUSTMENT''"
  by (auto simp add: comp_adjustment_def Let_def categorize_adjustment_def
      adjustment_direction_def isna_def mkt_adj_pct_def pct_change_def)

text \<open>A comparable 30 days from the effective date, threshold 90, on an empty index.\<close>

theorem zeroing_precedence_witness:
  "\<not> AppliedAdj (comp_adjustment [] Col_Index_Raw (2024, 3, 31) 90 (2024, 3, 1) (Some 400000))
   \<and> isna (Index_Contract
             (comp_adjustment [] Col_Index_Raw (2024, 3, 31) 90 (2024, 3, 1) (Some 400000)))
   \<and> MktAdjPct
       (comp_adjustment [] Col_Index_Raw (2024, 3, 31) 90 (2024, 3, 1) (Some 400000)) = Some 0
   \<and> MktAdjDollar
       (comp_adjustment [] Col_Index_Raw (2024, 3, 31) 90 (2024, 3, 1) (Some 400000)) = Some 0
   \<and> Category
       (comp_adjustment [] Col_Index_Raw (2024, 3, 31) 90 (2024, 3, 1) (Some 400000))
     = ''Stable''
   \<and> Direction
       (comp_adjustment [] Col_Index_Raw (2024, 3, 31) 90 (2024, 3, 1) (Some 400000))
     = ''NO ADJUSTMENT''"
  using zeroing_precedence [of "[]" Col_Index_Raw "(2024, 3, 31)" 90 "(2024, 3, 1)" "Some 400000"]
  by (simp add: comp_no_index isna_def)

lemma scenario_A_index_5:
  "build_monthly_index_price scenario_A 5 =
     [\<lparr>Month = (2024, 1, 1), SalesCount = 1, MedianPrice = Some 300000, ThinMonth = True,
       Index_Raw = Some 1\<rparr>,
      \<lparr>Month = (2024, 2, 1), SalesCount = 1, MedianPrice = Some 310000, ThinMonth = True,
       Index_Raw = Some (31 / 30)\<rparr>]"
  by (simp add: build_monthly_index_price_def scenario_A_def dropna_def List.map_filter_def
      monthly_buckets_def month_start_def median_def set_index_raw_def isna_def Let_def)

lemma add_smoothed_frame:
  "i < length m \<Longrightarrow>
     Month (add_smoothed_and_regression m w ! i) = Month (m ! i)
   \<and> Index_Raw (add_smoothed_and_regression m w ! i) = Index_Raw (m ! i)"
  by (simp add: add_smoothed_and_regression_def Let_def)

lemma scenario_A_index_df_rows:
  "\<exists>r0 r1. scenario_A_index_df = [r0, r1]
     \<and> Month r0 = (2024, 1, 1) \<and> Index_Raw r0 = Some 1
     \<and> Month r1 = (2024, 2, 1) \<and> Index_Raw r1 = Some (31 / 30)"
proof -
  have len: "length scenario_A_index_df = 2"
    by (simp add: scenario_A_index_df_def add_smoothed_and_regression_def Let_def
        scenario_A_index_5)
  then obtain r0 r1 where e: "scenario_A_index_df = [r0, r1]"
    by (metis (no_types) One_nat_def Suc_1 length_0_conv length_Suc_conv)
  have "Month (scenario_A_index_df ! 0) = (2024, 1, 1)"
       "Index_Raw (scenario_A_index_df ! 0) = Some 1"
       "Month (scenario_A_index_df ! 1) = (2024, 2, 1)"
       "Index_Raw (scenario_A_index_df ! 1) = Some (31 / 30)"
    unfolding scenario_A_index_df_def
    by (simp_all add: add_smoothed_frame scenario_A_index_5)
  then have "Month r0 = (2024, 1, 1)" "Index_Raw r0 = Some 1"
       "Month r1 = (2024, 2, 1)" "Index_Raw r1 = Some (31 / 30)"
    unfolding e by simp_all
  with e show ?thesis by blast
qed

lemma toordinal_2023_12_20: "toordinal (2023, 12, 20) = 738874"
  by (simp add: toordinal_def days_before_year_def days_before_month_def is_leap_def)

lemma toordinal_2024_01_01: "toordinal (2024, 1, 1) = 738886"
  by (simp add: toordinal_def days_before_year_def days_before_month_def is_leap_def)

lemma comp_before_first_month:
  "comp_adjustment scenario_A_index_df Col_Index_Raw (2023, 12, 20) 90 (2024, 1, 1) (Some 300000)
   = \<lparr>Index_Contract = Some 1, Index_Effective = None, DaysFromEffective = 12,
      AppliedAdj = False, MktAdjPct = Some 0, MktAdjDollar = Some 0, Category = ''Stable'',
      Direction = ''NO ADJUSTMENT''\<rparr>"
proof -
  obtain r0 r1 where e: "scenario_A_index_df = [r0, r1]"
      "Month r0 = (2024, 1, 1)" "Index_Raw r0 = Some 1"
      "Month r1 = (2024, 2, 1)" "Index_Raw r1 = Some (31 / 30)"
    using scenario_A_index_df_rows by blast
  show ?thesis
    by (simp add: comp_adjustment_def Let_def lookup_index_def days_between_def e
      month_start_def toordinal_2023_12_20 toordinal_2024_01_01 categorize_adjustment_def
      adjustment_direction_def isna_def)
qed

text \<open>
  Claim C4, as stated for every comparable, fails inside the no-adjustment window. The
  index is the one built from the two sales of scenario A (buckets for January and
  February 2024), the effective date is 2023-12-20, before the first bucket, and the
  comparable is the sale of 2024-01-01, 12 days from the effective date with a threshold
  of 90 days: the effective index is unavailable and yet the reported percent adjustment
  is 0, not NaN.
\<close>

theorem undefined_adjustment_counterexample:
  "isna (Index_Effective
           (comp_adjustment scenario_A_index_df Col_Index_Raw (2023, 12, 20) 90 (2024, 1, 1)
              (Some 300000)))
   \<and> MktAdjPct
       (comp_adjustment scenario_A_index_df Col_Index_Raw (2023, 12, 20) 90 (2024, 1, 1)
          (Some 300000))
     = Some 0"
  by (simp add: comp_before_first_month isna_def)

text \<open>
  Claim C4, amended. For every comparable with \<open>AppliedAdj\<close> true: if the effective index
  or the contract index is unavailable, or the contract index is exactly zero, the percent
  adjustment is NaN, not zero; otherwise the percent adjustment is
  \<open>(effective / contract - 1) * 100\<close> and the dollar adjustment is the sold price times the
  percent adjustment divided by 100.
\<close>

theorem undefined_adjustment_when_applied:
  assumes "AppliedAdj
             (comp_adjustment index_df math_col eff_date no_adj_days contract_date sold_price)"
  shows "(isna (Index_Effective
                  (comp_adjustment index_df math_col eff_date no_adj_days contract_date sold_price))
          \<or> isna (Index_Contract
                  (comp_adjustment index_df math_col eff_date no_adj_days contract_date sold_price))
          \<or> Index_Contract
              (comp_adjustment index_df math_col eff_date no_adj_days contract_date sold_price)
            = Some 0
          \<longrightarrow> MktAdjPct
                (comp_adjustment index_df math_col eff_date no_adj_days contract_date sold_price)
              = None)
       \<and> (\<forall>e c. Index_Effective
                   (comp_adjustment index_df math_col eff_date no_adj_days contract_date sold_price)
                 = Some e
             \<and> Index_Contract
                 (comp_adjustment index_df math_col eff_date no_adj_days contract_date sold_price)
               = Some c
             \<and> c \<noteq> 0
           \<longrightarrow> MktAdjPct
                 (comp_adjustment index_df math_col eff_date no_adj_days contract_date sold_price)
               = Some ((e / c - 1) * 100)
             \<and> (\<forall>s. sold_price = Some s \<longrightarrow>
                  MktAdjDollar
                    (comp_adjustment index_df math_col eff_date no_adj_days contract_date
                       sold_price)
                  = Some (s * ((e / c - 1) * 100 / 100))))"
  using assms
  by (auto simp add: comp_adjustment_def Let_def isna_def mkt_adj_pct_def mkt_adj_dollar_def
      pct_change_def)

text \<open>Scenario B: contract index 1.02, effective index 1.05, price 400000, 120 days.\<close>

theorem undefined_adjustment_when_applied_witness:
  "AppliedAdj
     (comp_adjustment scenario_B Col_Index_Raw (2024, 5, 14) 90 (2024, 1, 15) (Some 400000))
   \<and> MktAdjPct
       (comp_adjustment scenario_B Col_Index_Raw (2024, 5, 14) 90 (2024, 1, 15) (Some 400000))
     = Some ((105 / 100 / (102 / 100) - 1) * 100)
   \<and> MktAdjDollar
       (comp_adjustment scenario_B Col_Index_Raw (2024, 5, 14) 90 (2024, 1, 15) (Some 400000))
     = Some (200000 / 17)"
  using undefined_adjustment_when_applied
          [of scenario_B Col_Index_Raw "(2024, 5, 14)" 90 "(2024, 1, 15)" "Some 400000"]
  by (simp add: comp_scenario_B)


subsection \<open>Scaling of the interquartile-range rule\<close>

lemma rne_of_int: "rne (of_int m) = m"
  by (simp add: rne_def)

lemma round53_scale:
  "round53 (2 powr of_int j * x) = 2 powr of_int j * round53 x"
proof (cases "x = 0")
  case True
  then show ?thesis by (simp add: round53_def)
next
  case False
  define c :: real where "c = 2 powr of_int j"
  have c: "0 < c" by (simp add: c_def)
  have "log 2 \<bar>c * x\<bar> = log 2 c + log 2 \<bar>x\<bar>"
    using c False by (simp add: abs_mult log_mult)
  also have "log 2 c = of_int j" by (simp add: c_def)
  finally have "\<lfloor>log 2 \<bar>c * x\<bar>\<rfloor> = j + \<lfloor>log 2 \<bar>x\<bar>\<rfloor>" by simp
  then have u: "2 powr of_int (\<lfloor>log 2 \<bar>c * x\<bar>\<rfloor> - 52)
              = c * 2 powr of_int (\<lfloor>log 2 \<bar>x\<bar>\<rfloor> - 52)"
    by (simp add: c_def powr_add [symmetric] algebra_simps)
  have nz: "c * x \<noteq> 0" using c False by simp
  show ?thesis
    unfolding c_def [symmetric] round53_def Let_def u using nz False c by simp
qed

lemma fl_Some: "fl x = Some r \<Longrightarrow> r = round53 x"
  by (auto simp: fl_def Let_def split: if_splits)

lemma fl_scale:
  assumes "fl x = Some r" "fl (2 powr of_int j * x) = Some r'"
  shows "r' = 2 powr of_int j * r"
  using fl_Some [OF assms(1)] fl_Some [OF assms(2)] by (simp add: round53_scale)

lemma fl_scale_eq:
  assumes "c = 2 powr of_int j" "fl x = Some r" "fl y = Some r'" "y = c * x"
  shows "r' = c * r"
  using fl_scale [of x r j r'] assms by simp

lemma round53_eval:
  assumes "x \<noteq> 0" "2 powr of_int e \<le> \<bar>x\<bar>" "\<bar>x\<bar> < 2 powr of_int (e + 1)"
  shows "round53 x = 2 powr of_int (e - 52) * of_int (rne (x / 2 powr of_int (e - 52)))"
proof -
  have "\<lfloor>log 2 \<bar>x\<bar>\<rfloor> = e"
    using assms by (subst floor_log_eq_powr_iff) simp_all
  then show ?thesis using assms(1) by (simp add: round53_def Let_def)
qed

lemma real_abs_int_ge1:
  assumes "n \<noteq> 0"
  shows "1 \<le> \<bar>real_of_int n\<bar>"
proof -
  from assms have "1 \<le> \<bar>n\<bar>" by simp
  then have "real_of_int 1 \<le> real_of_int \<bar>n\<bar>" by (simp only: of_int_le_iff)
  then show ?thesis by simp
qed

lemma real_abs_int_less:
  assumes "\<bar>n\<bar> < 2 ^ 53"
  shows "\<bar>real_of_int n\<bar> < 2 ^ 53"
proof -
  from assms have "real_of_int \<bar>n\<bar> < real_of_int (2 ^ 53)" by (simp only: of_int_less_iff)
  then show ?thesis by simp
qed

lemma round53_int:
  assumes "\<bar>n\<bar> < 2 ^ 53"
  shows "round53 (of_int n) = of_int n"
proof (cases "n = 0")
  case True
  then show ?thesis by (simp add: round53_def)
next
  case False
  define x :: real where "x = of_int n"
  define e where "e = \<lfloor>log 2 \<bar>x\<bar>\<rfloor>"
  have x1: "1 \<le> \<bar>x\<bar>" unfolding x_def using False by (rule real_abs_int_ge1)
  have x2: "\<bar>x\<bar> < 2 ^ 53" unfolding x_def using assms by (rule real_abs_int_less)
  have "0 \<le> log 2 \<bar>x\<bar>" using x1 by simp
  then have e0: "0 \<le> e" by (simp add: e_def)
  have "log 2 \<bar>x\<bar> < 53" using x1 x2 by (subst log_less_iff) simp_all
  then have e1: "e \<le> 52" unfolding e_def by linarith
  define k where "k = nat (52 - e)"
  have ek: "real_of_int (e - 52) = - real k" using e1 by (simp add: k_def)
  have u: "(2::real) powr real_of_int (e - 52) = 1 / 2 ^ k"
    unfolding ek by (simp add: powr_minus powr_realpow divide_simps)
  have "x / (1 / 2 ^ k) = of_int (n * 2 ^ k)" by (simp add: x_def)
  then have r: "rne (x / (1 / 2 ^ k)) = n * 2 ^ k" by (simp only: rne_of_int)
  have "round53 x = 1 / 2 ^ k * of_int (rne (x / (1 / 2 ^ k)))"
    using x1 unfolding round53_def Let_def e_def [symmetric] u by auto
  also have "\<dots> = x" unfolding r by (simp add: x_def)
  finally show ?thesis by (simp add: x_def)
qed

lemma fl_in_range:
  assumes "r = round53 x" "1 \<le> \<bar>r\<bar>" "\<bar>r\<bar> \<le> 2 ^ 100"
  shows "fl x = Some r"
proof -
  have "(2::real) powr (- 1022) \<le> 2 powr 0" by (intro powr_mono) simp_all
  then have a: "2 powr (- 1022) \<le> \<bar>r\<bar>" using assms(2) by simp
  have "(2::real) ^ 100 < 2 powr 1024" by simp
  then have b: "\<bar>r\<bar> < 2 powr 1024" using assms(3) by linarith
  show ?thesis using a b assms(1) by (simp add: fl_def Let_def)
qed

lemma fl_zero: "fl 0 = Some 0"
  by (simp add: fl_def round53_def)

lemma fl_int:
  assumes "n \<noteq> 0" "\<bar>n\<bar> < 2 ^ 53"
  shows "fl (of_int n) = Some (of_int n)"
proof (rule fl_in_range)
  show "of_int n = round53 (of_int n)" using round53_int [OF assms(2)] by simp
  show "1 \<le> \<bar>real_of_int n\<bar>" using assms(1) by (rule real_abs_int_ge1)
  have "\<bar>real_of_int n\<bar> < 2 ^ 53" using assms(2) by (rule real_abs_int_less)
  then show "\<bar>real_of_int n\<bar> \<le> 2 ^ 100" by simp
qed

lemma fl_numeral:
  assumes "\<bar>numeral n :: int\<bar> < 2 ^ 53"
  shows "fl (numeral n) = Some (numeral n)"
  using fl_int [of "numeral n"] assms by simp

lemma is_double_numeral:
  assumes "\<bar>numeral n :: int\<bar> < 2 ^ 53"
  shows "is_double (numeral n)"
  unfolding is_double_def using assms by (rule fl_numeral)

lemma is_double_1_4: "is_double (6305039478318694 / 4503599627370496)"
  unfolding is_double_def
proof (rule fl_in_range)
  show "6305039478318694 / 4503599627370496
        = round53 (6305039478318694 / 4503599627370496)"
    using round53_eval [of "6305039478318694 / 4503599627370496" 0]
    by (simp add: rne_def Let_def powr_neg_numeral)
qed simp_all

lemma is_double_1_5: "is_double (3 / 2)"
  unfolding is_double_def
proof (rule fl_in_range)
  show "3 / 2 = round53 (3 / 2)"
    using round53_eval [of "3 / 2" 0] by (simp add: rne_def Let_def powr_neg_numeral)
qed simp_all

lemma fl_1_4: "fl (14 / 10) = Some (6305039478318694 / 4503599627370496)"
proof (rule fl_in_range)
  show r: "6305039478318694 / 4503599627370496 = round53 (14 / 10)"
    using round53_eval [of "14 / 10" 0] by (simp add: rne_def Let_def powr_neg_numeral)
qed simp_all

lemma fl_w1: "fl (6305039478318694 / 4503599627370496 * 30000) = Some 42000"
proof (rule fl_in_range)
  show "42000 = round53 (6305039478318694 / 4503599627370496 * 30000)"
    using round53_eval [of "6305039478318694 / 4503599627370496 * 30000" 15]
    by (simp add: rne_def Let_def powr_neg_numeral)
qed simp_all

lemma fl_w3:
  "fl (6305039478318694 / 4503599627370496 * 90000) = Some (8658654068735999 / 68719476736)"
proof (rule fl_in_range)
  show "8658654068735999 / 68719476736
        = round53 (6305039478318694 / 4503599627370496 * 90000)"
    using round53_eval [of "6305039478318694 / 4503599627370496 * 90000" 16]
    by (simp add: rne_def Let_def powr_neg_numeral)
qed simp_all

lemma fl_lo3:
  "fl (150000 - 8658654068735999 / 68719476736) = Some (1649267441664001 / 68719476736)"
proof (rule fl_in_range)
  show "1649267441664001 / 68719476736 = round53 (150000 - 8658654068735999 / 68719476736)"
    using round53_eval [of "150000 - 8658654068735999 / 68719476736" 14]
    by (simp add: rne_def Let_def powr_neg_numeral)
qed simp_all

lemma fl_hi3: "fl (240000 + 8658654068735999 / 68719476736) = Some 366000"
proof (rule fl_in_range)
  show "366000 = round53 (240000 + 8658654068735999 / 68719476736)"
    using round53_eval [of "240000 + 8658654068735999 / 68719476736" 18]
    by (simp add: rne_def Let_def powr_neg_numeral)
qed simp_all

lemma lerp_zero:
  assumes "fl (b - a) = Some d" "fl a = Some a"
  shows "lerp a b 0 = Some a"
  using assms by (simp add: lerp_def fl_zero)

lemma observations_scale:
  "observations (map (scale c) s) = map (\<lambda>a. c * a) (observations s)"
  by (induction s) (auto simp: observations_def List.map_filter_def scale_def)

lemma insort_scale:
  fixes c :: real
  assumes "0 < c"
  shows "insort (c * x) (map (\<lambda>a. c * a) xs) = map (\<lambda>a. c * a) (insort x xs)"
  using assms by (induction xs) simp_all

lemma sort_scale:
  fixes c :: real
  assumes "0 < c"
  shows "sort (map (\<lambda>a. c * a) xs) = map (\<lambda>a. c * a) (sort xs)"
  by (induction xs) (simp_all add: insort_scale [OF assms])

lemma quantile_five:
  "quantile [a, b, c, d, e] (1 / 4) = lerp b c 0"
  "quantile [a, b, c, d, e] (3 / 4) = lerp d e 0"
  by (simp_all add: quantile_def Let_def)

lemma iqr_flags_original:
  "compute_iqr_flags_cached [Some 8000, Some 50000, Some 65000, Some 80000, Some 85000]
     (6305039478318694 / 4503599627370496)
   = Some [False, False, False, False, False]"
proof -
  have v: "sort (observations [Some 8000, Some 50000, Some 65000, Some 80000, Some 85000])
           = [8000, 50000, 65000, 80000, 85000]"
    by (simp add: observations_def)
  have q1: "lerp 50000 65000 0 = Some 50000"
    by (rule lerp_zero [where d = 15000]) (simp_all add: fl_numeral)
  have q3: "lerp 80000 85000 0 = Some 80000"
    by (rule lerp_zero [where d = 5000]) (simp_all add: fl_numeral)
  have i: "fl (80000 - 50000) = Some 30000" by (simp add: fl_numeral)
  have lo: "fl (50000 - 42000) = Some 8000" by (simp add: fl_numeral)
  have hi: "fl (80000 + 42000) = Some 122000" by (simp add: fl_numeral)
  have g: "list_all is_double
             (observations [Some 8000, Some 50000, Some 65000, Some 80000, Some 85000])"
    by (simp add: observations_def is_double_numeral)
  have "compute_iqr_flags_cached [Some 8000, Some 50000, Some 65000, Some 80000, Some 85000]
          (6305039478318694 / 4503599627370496)
        = Some (map (\<lambda>x. flt x (Some 8000) \<or> fgt x (Some 122000))
                  [Some 8000, Some 50000, Some 65000, Some 80000, Some 85000])"
    unfolding compute_iqr_flags_cached_def Let_def v
    by (simp only: g is_double_1_4 simp_thms list.distinct if_False quantile_five q1 q3
        Option.bind.simps i fl_w1 lo hi)
  then show ?thesis by simp
qed

lemma iqr_flags_tripled:
  "compute_iqr_flags_cached
     (map (scale 3) [Some 8000, Some 50000, Some 65000, Some 80000, Some 85000])
     (6305039478318694 / 4503599627370496)
   = Some [True, False, False, False, False]"
proof -
  have v: "sort (observations
                  (map (scale 3) [Some 8000, Some 50000, Some 65000, Some 80000, Some 85000]))
           = [24000, 150000, 195000, 240000, 255000]"
    by (simp add: observations_def scale_def)
  have q1: "lerp 150000 195000 0 = Some 150000"
    by (rule lerp_zero [where d = 45000]) (simp_all add: fl_numeral)
  have q3: "lerp 240000 255000 0 = Some 240000"
    by (rule lerp_zero [where d = 15000]) (simp_all add: fl_numeral)
  have i: "fl (240000 - 150000) = Some 90000" by (simp add: fl_numeral)
  have g: "list_all is_double
             (observations
                (map (scale 3) [Some 8000, Some 50000, Some 65000, Some 80000, Some 85000]))"
    by (simp add: observations_def scale_def is_double_numeral)
  have "compute_iqr_flags_cached
          (map (scale 3) [Some 8000, Some 50000, Some 65000, Some 80000, Some 85000])
          (6305039478318694 / 4503599627370496)
        = Some (map (\<lambda>x. flt x (Some (1649267441664001 / 68719476736)) \<or> fgt x (Some 366000))
                  (map (scale 3) [Some 8000, Some 50000, Some 65000, Some 80000, Some 85000]))"
    unfolding compute_iqr_flags_cached_def Let_def v
    by (simp only: g is_double_1_4 simp_thms list.distinct if_False quantile_five q1 q3
        Option.bind.simps i fl_w3 fl_lo3 fl_hi3)
  then show ?thesis by (simp add: scale_def)
qed

text \<open>
  Claim C7 as stated fails in double precision. The prices are 8000, 50000, 65000, 80000
  and 85000 and the multiplier is the double nearest to 1.4, which is
  \<open>6305039478318694 / 2 ^ 52\<close>. The lower bound is \<open>50000 - 42000 = 8000\<close> and the first price
  is not below it. With every price tripled the product \<open>k * 90000\<close> is rounded down to
  \<open>126000 - 2 ^ -36\<close>, the lower bound is \<open>24000 + 2 ^ -36\<close>, and the first price, 24000, is
  flagged.
\<close>

theorem iqr_scaling_counterexample:
  "compute_iqr_flags_cached [Some 8000, Some 50000, Some 65000, Some 80000, Some 85000]
     (6305039478318694 / 4503599627370496)
   = Some [False, False, False, False, False]
   \<and> compute_iqr_flags_cached
       (map (scale 3) [Some 8000, Some 50000, Some 65000, Some 80000, Some 85000])
       (6305039478318694 / 4503599627370496)
     = Some [True, False, False, False, False]"
  using iqr_flags_original iqr_flags_tripled by (rule conjI)

lemma lerp_scale:
  assumes c: "c = 2 powr of_int j"
    and 1: "lerp a b t = Some r"
    and 2: "lerp (c * a) (c * b) t = Some r'"
  shows "r' = c * r"
proof -
  from 1 obtain d where d: "fl (b - a) = Some d"
    and r: "(if t \<ge> 1 / 2
             then do { s \<leftarrow> fl (1 - t); m \<leftarrow> fl (d * s); fl (b - m) }
             else do { m \<leftarrow> fl (d * t); fl (a + m) }) = Some r"
    by (auto simp: lerp_def bind_eq_Some_conv)
  from 2 obtain d' where d': "fl (c * b - c * a) = Some d'"
    and r': "(if t \<ge> 1 / 2
             then do { s \<leftarrow> fl (1 - t); m \<leftarrow> fl (d' * s); fl (c * b - m) }
             else do { m \<leftarrow> fl (d' * t); fl (c * a + m) }) = Some r'"
    by (auto simp: lerp_def bind_eq_Some_conv)
  have dd: "d' = c * d"
    by (rule fl_scale_eq [OF c d d']) (simp add: algebra_simps)
  show ?thesis
  proof (cases "t \<ge> 1 / 2")
    case True
    from r True obtain s m where s: "fl (1 - t) = Some s" and m: "fl (d * s) = Some m"
      and e: "fl (b - m) = Some r"
      by (auto simp: bind_eq_Some_conv)
    from r' True s obtain m' where m': "fl (d' * s) = Some m'" and e': "fl (c * b - m') = Some r'"
      by (auto simp: bind_eq_Some_conv)
    have mm: "m' = c * m"
      by (rule fl_scale_eq [OF c m m']) (simp add: dd algebra_simps)
    show ?thesis
      by (rule fl_scale_eq [OF c e e']) (simp add: mm algebra_simps)
  next
    case False
    from r False obtain m where m: "fl (d * t) = Some m" and e: "fl (a + m) = Some r"
      by (auto simp: bind_eq_Some_conv)
    from r' False obtain m' where m': "fl (d' * t) = Some m'" and e': "fl (c * a + m') = Some r'"
      by (auto simp: bind_eq_Some_conv)
    have mm: "m' = c * m"
      by (rule fl_scale_eq [OF c m m']) (simp add: dd algebra_simps)
    show ?thesis
      by (rule fl_scale_eq [OF c e e']) (simp add: mm algebra_simps)
  qed
qed

lemma quantile_index:
  fixes q :: real
  assumes "0 < n" "0 \<le> q" "q \<le> 1"
  shows "nat \<lfloor>real (n - 1) * q\<rfloor> < n"
proof -
  have "real (n - 1) * q \<le> real (n - 1)" using assms by (simp add: mult_left_le)
  then have "\<lfloor>real (n - 1) * q\<rfloor> \<le> int (n - 1)" by linarith
  then show ?thesis using assms(1) by linarith
qed

lemma quantile_scale:
  assumes c: "c = 2 powr of_int j" and v: "v \<noteq> []" and q: "0 \<le> q" "q \<le> 1"
    and 1: "quantile v q = Some r"
    and 2: "quantile (map (\<lambda>a. c * a) v) q = Some r'"
  shows "r' = c * r"
proof -
  define n where "n = length v"
  have n: "0 < n" using v by (simp add: n_def)
  define lo where "lo = nat \<lfloor>real (n - 1) * q\<rfloor>"
  define hi where "hi = min (lo + 1) (n - 1)"
  have "lo < n" unfolding lo_def by (rule quantile_index [OF n q])
  then have lo: "lo < length v" by (simp add: n_def)
  have "hi < n" unfolding hi_def using n by linarith
  then have hi: "hi < length v" by (simp add: n_def)
  have a: "lerp (v ! lo) (v ! hi) (real (n - 1) * q - real lo) = Some r"
    using 1 unfolding quantile_def Let_def n_def [symmetric] lo_def [symmetric]
      hi_def [symmetric] .
  have "lerp (map (\<lambda>a. c * a) v ! lo) (map (\<lambda>a. c * a) v ! hi) (real (n - 1) * q - real lo)
        = Some r'"
    using 2 unfolding quantile_def Let_def length_map n_def [symmetric] lo_def [symmetric]
      hi_def [symmetric] .
  then have b: "lerp (c * v ! lo) (c * v ! hi) (real (n - 1) * q - real lo) = Some r'"
    using lo hi by simp
  show ?thesis by (rule lerp_scale [OF c a b])
qed

lemma scale_flt: "0 < c \<Longrightarrow> flt (scale c a) (scale c b) = flt a b"
  by (cases a; cases b) (simp_all add: scale_def)

lemma scale_fgt: "0 < c \<Longrightarrow> fgt (scale c a) (scale c b) = fgt a b"
  by (cases a; cases b) (simp_all add: scale_def)

lemma iqr_flags_scale_eq:
  assumes c: "c = 2 powr real_of_int j"
    and 1: "compute_iqr_flags_cached sold_prices k = Some f1"
    and 2: "compute_iqr_flags_cached (map (scale c) sold_prices) k = Some f2"
  shows "f2 = f1"
proof -
  define v where "v = sort (observations sold_prices)"
  have c0: "0 < c" by (simp add: c)
  have v': "sort (observations (map (scale c) sold_prices)) = map (\<lambda>a. c * a) v"
    by (simp add: observations_scale sort_scale [OF c0] v_def)
  show ?thesis
  proof (cases "v = []")
    case True
    with 1 2 show ?thesis
      unfolding compute_iqr_flags_cached_def Let_def v' v_def [symmetric]
      by (auto split: if_splits)
  next
    case False
    from 1 False obtain q1 q3 iqr w lo hi where
      q1: "quantile v (1 / 4) = Some q1" and q3: "quantile v (3 / 4) = Some q3"
      and iqr: "fl (q3 - q1) = Some iqr" and w: "fl (k * iqr) = Some w"
      and lo: "fl (q1 - w) = Some lo" and hi: "fl (q3 + w) = Some hi"
      and f1: "f1 = map (\<lambda>x. flt x (Some lo) \<or> fgt x (Some hi)) sold_prices"
      unfolding compute_iqr_flags_cached_def Let_def v_def [symmetric]
      by (auto simp: bind_eq_Some_conv split: if_splits)
    from 2 False obtain q1' q3' iqr' w' lo' hi' where
      q1': "quantile (map (\<lambda>a. c * a) v) (1 / 4) = Some q1'"
      and q3': "quantile (map (\<lambda>a. c * a) v) (3 / 4) = Some q3'"
      and iqr': "fl (q3' - q1') = Some iqr'" and w': "fl (k * iqr') = Some w'"
      and lo': "fl (q1' - w') = Some lo'" and hi': "fl (q3' + w') = Some hi'"
      and f2: "f2 = map (\<lambda>x. flt x (Some lo') \<or> fgt x (Some hi')) (map (scale c) sold_prices)"
      unfolding compute_iqr_flags_cached_def Let_def v'
      by (auto simp: bind_eq_Some_conv split: if_splits)
    have a: "q1' = c * q1" by (rule quantile_scale [OF c False _ _ q1 q1']) simp_all
    have b: "q3' = c * q3" by (rule quantile_scale [OF c False _ _ q3 q3']) simp_all
    have d: "iqr' = c * iqr"
      by (rule fl_scale_eq [OF c iqr iqr']) (simp add: a b algebra_simps)
    have e: "w' = c * w"
      by (rule fl_scale_eq [OF c w w']) (simp add: d algebra_simps)
    have f: "lo' = c * lo"
      by (rule fl_scale_eq [OF c lo lo']) (simp add: a e algebra_simps)
    have g: "hi' = c * hi"
      by (rule fl_scale_eq [OF c hi hi']) (simp add: b e algebra_simps)
    have "Some (c * lo) = scale c (Some lo)" "Some (c * hi) = scale c (Some hi)"
      by (simp_all add: scale_def)
    then show ?thesis
      unfolding f1 f2 f g by (simp add: scale_flt [OF c0] scale_fgt [OF c0] comp_def)
  qed
qed

lemma on_grid_zero: "on_grid g 0"
  unfolding on_grid_def by (rule exI [of _ 0]) simp

lemma on_grid_finer:
  assumes "on_grid g x" "g' \<le> g"
  shows "on_grid g' x"
proof -
  from assms(1) obtain m :: int where m: "x = of_int m * 2 powr of_int g"
    by (auto simp: on_grid_def)
  define k where "k = nat (g - g')"
  have "real_of_int g = real_of_int g' + real k" using assms(2) by (simp add: k_def)
  then have "(2::real) powr of_int g = 2 powr of_int g' * 2 ^ k"
    by (simp add: powr_add powr_realpow)
  then have "x = of_int (m * 2 ^ k) * 2 powr of_int g'" by (simp add: m)
  then show ?thesis unfolding on_grid_def by blast
qed

lemma on_grid_add:
  assumes "on_grid g x" "on_grid g y"
  shows "on_grid g (x + y)"
proof -
  from assms obtain m n :: int where "x = of_int m * 2 powr of_int g"
    "y = of_int n * 2 powr of_int g" by (auto simp: on_grid_def)
  then have "x + y = of_int (m + n) * 2 powr of_int g" by (simp add: algebra_simps)
  then show ?thesis unfolding on_grid_def by blast
qed

lemma on_grid_diff:
  assumes "on_grid g x" "on_grid g y"
  shows "on_grid g (x - y)"
proof -
  from assms obtain m n :: int where "x = of_int m * 2 powr of_int g"
    "y = of_int n * 2 powr of_int g" by (auto simp: on_grid_def)
  then have "x - y = of_int (m - n) * 2 powr of_int g" by (simp add: algebra_simps)
  then show ?thesis unfolding on_grid_def by blast
qed

lemma on_grid_mult:
  assumes "on_grid g x" "on_grid h y"
  shows "on_grid (g + h) (x * y)"
proof -
  from assms obtain m n :: int where "x = of_int m * 2 powr of_int g"
    "y = of_int n * 2 powr of_int h" by (auto simp: on_grid_def)
  then have "x * y = of_int (m * n) * 2 powr of_int (g + h)"
    by (simp add: powr_add algebra_simps)
  then show ?thesis unfolding on_grid_def by blast
qed

lemma on_grid_lower:
  assumes "on_grid g x" "x \<noteq> 0"
  shows "2 powr of_int g \<le> \<bar>x\<bar>"
proof -
  from assms(1) obtain m :: int where m: "x = of_int m * 2 powr of_int g"
    by (auto simp: on_grid_def)
  with assms(2) have "m \<noteq> 0" by auto
  then have "1 \<le> \<bar>real_of_int m\<bar>" by (rule real_abs_int_ge1)
  then have "1 * 2 powr of_int g \<le> \<bar>real_of_int m\<bar> * 2 powr of_int g"
    by (intro mult_right_mono) simp_all
  then show ?thesis by (simp add: m abs_mult)
qed

lemma exponent_bracket:
  assumes "x \<noteq> 0"
  shows "2 powr of_int \<lfloor>log 2 \<bar>x\<bar>\<rfloor> \<le> \<bar>x\<bar>" "\<bar>x\<bar> < 2 powr of_int (\<lfloor>log 2 \<bar>x\<bar>\<rfloor> + 1)"
proof -
  have "\<lfloor>log 2 \<bar>x\<bar>\<rfloor> = \<lfloor>log 2 \<bar>x\<bar>\<rfloor>" ..
  then have "2 powr of_int \<lfloor>log 2 \<bar>x\<bar>\<rfloor> \<le> \<bar>x\<bar> \<and> \<bar>x\<bar> < 2 powr of_int (\<lfloor>log 2 \<bar>x\<bar>\<rfloor> + 1)"
    using assms by (subst (asm) floor_log_eq_powr_iff) simp_all
  then show "2 powr of_int \<lfloor>log 2 \<bar>x\<bar>\<rfloor> \<le> \<bar>x\<bar>" "\<bar>x\<bar> < 2 powr of_int (\<lfloor>log 2 \<bar>x\<bar>\<rfloor> + 1)"
    by simp_all
qed

lemma exponent_ge:
  assumes "2 powr of_int a \<le> \<bar>x\<bar>"
  shows "a \<le> \<lfloor>log 2 \<bar>x\<bar>\<rfloor>"
proof -
  have p: "0 < \<bar>x\<bar>" using assms by (smt (verit) powr_gt_zero)
  have "of_int a \<le> log 2 \<bar>x\<bar>" using assms p by (subst le_log_iff) simp_all
  then show ?thesis by (simp add: le_floor_iff)
qed

lemma exponent_less:
  assumes "x \<noteq> 0" "\<bar>x\<bar> < 2 powr of_int b"
  shows "\<lfloor>log 2 \<bar>x\<bar>\<rfloor> < b"
proof -
  have "log 2 \<bar>x\<bar> < of_int b" using assms by (subst log_less_iff) simp_all
  then show ?thesis by (simp add: floor_less_iff)
qed

lemma rne_ge:
  assumes "of_int k \<le> z"
  shows "k \<le> rne z"
proof -
  from assms have "k \<le> \<lfloor>z\<rfloor>" by (simp add: le_floor_iff)
  moreover have "\<lfloor>z\<rfloor> \<le> rne z" by (simp add: rne_def Let_def)
  ultimately show ?thesis by simp
qed

lemma rne_le:
  assumes "z \<le> of_int k"
  shows "rne z \<le> k"
proof (cases "z = of_int \<lfloor>z\<rfloor>")
  case True
  then have "rne z = \<lfloor>z\<rfloor>" by (simp add: rne_def Let_def)
  moreover from assms have "\<lfloor>z\<rfloor> \<le> k" by (simp add: floor_le_iff)
  ultimately show ?thesis by simp
next
  case False
  then have "of_int \<lfloor>z\<rfloor> < z" using of_int_floor_le [of z] by linarith
  with assms have "real_of_int \<lfloor>z\<rfloor> < of_int k" by linarith
  then have "\<lfloor>z\<rfloor> < k" by (simp only: of_int_less_iff)
  moreover have "rne z \<le> \<lfloor>z\<rfloor> + 1" by (simp add: rne_def Let_def)
  ultimately show ?thesis by linarith
qed

lemma round53_bounds:
  assumes "x \<noteq> 0"
  shows "2 powr of_int \<lfloor>log 2 \<bar>x\<bar>\<rfloor> \<le> \<bar>round53 x\<bar>"
    and "\<bar>round53 x\<bar> \<le> 2 powr of_int (\<lfloor>log 2 \<bar>x\<bar>\<rfloor> + 1)"
proof -
  define E where "E = \<lfloor>log 2 \<bar>x\<bar>\<rfloor>"
  define u :: real where "u = 2 powr of_int (E - 52)"
  define z where "z = x / u"
  have u: "0 < u" by (simp add: u_def)
  have r: "round53 x = u * of_int (rne z)"
    using assms by (simp add: round53_def Let_def E_def u_def z_def)
  have lo: "2 powr of_int E = 2 ^ 52 * u"
    by (simp add: u_def powr_diff)
  have hi: "2 powr of_int (E + 1) = 2 ^ 53 * u"
    by (simp add: u_def powr_diff powr_add)
  from exponent_bracket [OF assms]
  have b: "2 ^ 52 * u \<le> \<bar>x\<bar>" "\<bar>x\<bar> < 2 ^ 53 * u"
    unfolding E_def [symmetric] lo hi by simp_all
  have x: "x = z * u" using u by (simp add: z_def)
  have "2 ^ 52 \<le> \<bar>real_of_int (rne z)\<bar> \<and> \<bar>real_of_int (rne z)\<bar> \<le> 2 ^ 53"
  proof (cases "0 < x")
    case True
    with b have "2 ^ 52 * u \<le> z * u" "z * u < 2 ^ 53 * u" by (simp_all add: x [symmetric])
    then have m: "2 ^ 52 * u \<le> z * u" "z * u < 2 ^ 53 * u" by simp_all
    have "2 ^ 52 \<le> z" using m(1) u by (rule mult_right_le_imp_le)
    moreover have "z < 2 ^ 53" using m(2) by (rule mult_right_less_imp_less) (simp add: u less_imp_le)
    ultimately have z: "real_of_int (2 ^ 52) \<le> z" "z \<le> real_of_int (2 ^ 53)" by simp_all
    have "2 ^ 52 \<le> rne z" "rne z \<le> 2 ^ 53"
      using z(1) apply (rule rne_ge) using z(2) by (rule rne_le)
    then have "real_of_int (2 ^ 52) \<le> real_of_int (rne z)"
      "real_of_int (rne z) \<le> real_of_int (2 ^ 53)"
      by (simp_all only: of_int_le_iff)
    then show ?thesis by simp
  next
    case False
    with assms have "x < 0" by simp
    with b have "2 ^ 52 * u \<le> - (z * u)" "- (z * u) < 2 ^ 53 * u" by (simp_all add: x [symmetric])
    then have m: "z * u \<le> (- (2 ^ 52)) * u" "(- (2 ^ 53)) * u < z * u" by simp_all
    have "z \<le> - (2 ^ 52)" using m(1) u by (rule mult_right_le_imp_le)
    moreover have "- (2 ^ 53) < z" using m(2) by (rule mult_right_less_imp_less) (simp add: u less_imp_le)
    ultimately have z: "z \<le> real_of_int (- (2 ^ 52))" "real_of_int (- (2 ^ 53)) \<le> z"
      by simp_all
    have "rne z \<le> - (2 ^ 52)" "- (2 ^ 53) \<le> rne z"
      using z(1) apply (rule rne_le) using z(2) by (rule rne_ge)
    then have "real_of_int (rne z) \<le> real_of_int (- (2 ^ 52))"
      "real_of_int (- (2 ^ 53)) \<le> real_of_int (rne z)"
      by (simp_all only: of_int_le_iff)
    then show ?thesis by simp
  qed
  then have "2 ^ 52 * u \<le> \<bar>real_of_int (rne z)\<bar> * u" "\<bar>real_of_int (rne z)\<bar> * u \<le> 2 ^ 53 * u"
    using u by simp_all
  then show "2 powr of_int \<lfloor>log 2 \<bar>x\<bar>\<rfloor> \<le> \<bar>round53 x\<bar>"
    and "\<bar>round53 x\<bar> \<le> 2 powr of_int (\<lfloor>log 2 \<bar>x\<bar>\<rfloor> + 1)"
    unfolding E_def [symmetric] lo hi r using u by (simp_all add: abs_mult algebra_simps)
qed

lemma round53_on_grid_own:
  assumes "x \<noteq> 0"
  shows "on_grid (\<lfloor>log 2 \<bar>x\<bar>\<rfloor> - 52) (round53 x)"
  unfolding on_grid_def using assms
  by (intro exI [of _ "rne (x / 2 powr of_int (\<lfloor>log 2 \<bar>x\<bar>\<rfloor> - 52))"])
     (simp add: round53_def Let_def)

lemma round53_on_grid:
  assumes "on_grid g x"
  shows "on_grid g (round53 x)"
proof (cases "x = 0")
  case True
  then show ?thesis by (simp add: round53_def on_grid_zero)
next
  case False
  define E where "E = \<lfloor>log 2 \<bar>x\<bar>\<rfloor>"
  show ?thesis
  proof (cases "g \<le> E - 52")
    case True
    from round53_on_grid_own [OF False] have "on_grid (E - 52) (round53 x)" by (simp add: E_def)
    then show ?thesis using True by (rule on_grid_finer)
  next
    case f: False
    from assms obtain m :: int where m: "x = of_int m * 2 powr of_int g"
      by (auto simp: on_grid_def)
    define k where "k = nat (g - (E - 52))"
    have "real_of_int g = real_of_int (E - 52) + real k" using f by (simp add: k_def)
    then have "(2::real) powr of_int g = 2 powr of_int (E - 52) * 2 ^ k"
      by (simp add: powr_add powr_realpow)
    then have "x / 2 powr of_int (E - 52) = of_int (m * 2 ^ k)" by (simp add: m)
    then have "rne (x / 2 powr of_int (E - 52)) = m * 2 ^ k" by (simp only: rne_of_int)
    then have "round53 x = 2 powr of_int (E - 52) * of_int (m * 2 ^ k)"
      using False by (simp add: round53_def Let_def E_def)
    also have "\<dots> = x"
      using \<open>x / 2 powr of_int (E - 52) = of_int (m * 2 ^ k)\<close> by (simp add: field_simps)
    finally show ?thesis using assms by simp
  qed
qed

lemma is_double_on_grid:
  assumes "is_double x" "2 powr of_int a \<le> \<bar>x\<bar>"
  shows "on_grid (a - 52) x"
proof -
  have nz: "x \<noteq> 0" using assms(2) by (smt (verit) powr_gt_zero)
  from assms(1) have "x = round53 x" unfolding is_double_def by (rule fl_Some)
  with round53_on_grid_own [OF nz] have "on_grid (\<lfloor>log 2 \<bar>x\<bar>\<rfloor> - 52) x" by simp
  moreover have "a - 52 \<le> \<lfloor>log 2 \<bar>x\<bar>\<rfloor> - 52" using exponent_ge [OF assms(2)] by simp
  ultimately show ?thesis by (rule on_grid_finer)
qed

lemma fl_defined:
  assumes "on_grid g x" "- 1022 \<le> g" "\<bar>x\<bar> < 2 powr of_int b" "b \<le> 1023"
  shows "\<exists>r. fl x = Some r \<and> on_grid g r \<and> \<bar>r\<bar> \<le> 2 powr of_int b"
proof (cases "x = 0")
  case True
  then show ?thesis by (simp add: fl_zero on_grid_zero)
next
  case False
  define E where "E = \<lfloor>log 2 \<bar>x\<bar>\<rfloor>"
  have "g \<le> E" unfolding E_def using on_grid_lower [OF assms(1) False] by (rule exponent_ge)
  have "E < b" unfolding E_def using False assms(3) by (rule exponent_less)
  from round53_bounds [OF False]
  have b: "2 powr of_int E \<le> \<bar>round53 x\<bar>" "\<bar>round53 x\<bar> \<le> 2 powr of_int (E + 1)"
    by (simp_all add: E_def)
  have "(2::real) powr (- 1022) \<le> 2 powr of_int E"
    using \<open>g \<le> E\<close> assms(2) by (intro powr_mono) simp_all
  from this b(1) have lo: "2 powr (- 1022) \<le> \<bar>round53 x\<bar>" by (rule order_trans)
  have "(2::real) powr of_int (E + 1) \<le> 2 powr of_int b"
    using \<open>E < b\<close> by (intro powr_mono) simp_all
  with b(2) have up: "\<bar>round53 x\<bar> \<le> 2 powr of_int b" by (rule order_trans)
  have "(2::real) powr of_int b < 2 powr 1024"
    using assms(4) by (intro powr_less_mono) simp_all
  with up have hi: "\<bar>round53 x\<bar> < 2 powr 1024" by (rule le_less_trans)
  have "fl x = Some (round53 x)" using lo hi by (simp add: fl_def Let_def)
  with round53_on_grid [OF assms(1)] up show ?thesis by blast
qed

lemma moderate_on_grid:
  assumes "moderate b x"
  shows "on_grid (- b - 52) x"
proof (cases "x = 0")
  case True
  then show ?thesis by (simp add: on_grid_zero)
next
  case False
  with assms have "is_double x" "2 powr of_int (- b) \<le> \<bar>x\<bar>" by (simp_all add: moderate_def)
  then show ?thesis by (rule is_double_on_grid)
qed

lemma pow2_shift:
  "(2::real) powr of_int (B + 1) = 2 * 2 powr of_int B"
  "(2::real) powr of_int (B + 2) = 4 * 2 powr of_int B"
  "(2::real) powr of_int (B + 3) = 8 * 2 powr of_int B"
  "(2::real) powr of_int (B + 4) = 16 * 2 powr of_int B"
  by (simp_all add: powr_add)

lemma lerp_defined:
  assumes a: "on_grid g a" "\<bar>a\<bar> \<le> 2 powr of_int B"
    and b: "on_grid g b" "\<bar>b\<bar> \<le> 2 powr of_int B"
    and t: "on_grid (- 2) t" "0 \<le> t" "t < 1"
    and g: "- 1020 \<le> g" "g \<le> 0" and B: "0 \<le> B" "B \<le> 1000"
  shows "\<exists>r. lerp a b t = Some r \<and> on_grid (g - 2) r \<and> \<bar>r\<bar> \<le> 2 powr of_int (B + 4)"
proof -
  define P :: real where "P = 2 powr of_int B"
  have P: "0 < P" by (simp add: P_def)
  have P1: "1 \<le> P" unfolding P_def using B(1) by (simp add: ge_one_powr_ge_zero)
  note sh = pow2_shift [of B, folded P_def]
  note aP = a(2) [folded P_def] and bP = b(2) [folded P_def]
  have "\<bar>b - a\<bar> \<le> \<bar>b\<bar> + \<bar>a\<bar>" by (rule abs_triangle_ineq4)
  with aP bP P have "\<bar>b - a\<bar> < 4 * P" by linarith
  then have "\<bar>b - a\<bar> < 2 powr of_int (B + 2)" unfolding sh .
  with fl_defined [OF on_grid_diff [OF b(1) a(1)], of "B + 2"] g B
  obtain d where d: "fl (b - a) = Some d" "on_grid g d" "\<bar>d\<bar> \<le> 2 powr of_int (B + 2)"
    by auto
  have d4: "\<bar>d\<bar> \<le> 4 * P" using d(3) unfolding sh .
  show ?thesis
  proof (cases "t \<ge> 1 / 2")
    case True
    have one: "on_grid (- 2) 1"
      unfolding on_grid_def by (rule exI [of _ 4]) (simp add: powr_neg_numeral)
    have "\<bar>1 - t\<bar> < 2 powr of_int 0" using True t by simp
    with fl_defined [OF on_grid_diff [OF one t(1)], of 0]
    obtain s where s: "fl (1 - t) = Some s" "on_grid (- 2) s" "\<bar>s\<bar> \<le> 1" by auto
    have "\<bar>d * s\<bar> \<le> 4 * P * 1"
      unfolding abs_mult using d4 s(3) by (intro mult_mono) simp_all
    then have "\<bar>d * s\<bar> < 2 powr of_int (B + 3)" unfolding sh using P by simp
    with fl_defined [OF on_grid_mult [OF d(2) s(2)], of "B + 3"] g B
    obtain m where m: "fl (d * s) = Some m" "on_grid (g + - 2) m"
      "\<bar>m\<bar> \<le> 2 powr of_int (B + 3)" by auto
    have m8: "\<bar>m\<bar> \<le> 8 * P" using m(3) unfolding sh .
    have bg: "on_grid (g + - 2) b" using b(1) by (rule on_grid_finer) simp
    have "\<bar>b - m\<bar> \<le> \<bar>b\<bar> + \<bar>m\<bar>" by (rule abs_triangle_ineq4)
    with bP m8 P have "\<bar>b - m\<bar> < 16 * P" by linarith
    then have "\<bar>b - m\<bar> < 2 powr of_int (B + 4)" unfolding sh .
    with fl_defined [OF on_grid_diff [OF bg m(2)], of "B + 4"] g B
    obtain r where r: "fl (b - m) = Some r" "on_grid (g + - 2) r"
      "\<bar>r\<bar> \<le> 2 powr of_int (B + 4)" by auto
    have "lerp a b t = Some r" using True d(1) s(1) m(1) r(1) by (simp add: lerp_def)
    with r show ?thesis by auto
  next
    case False
    have "\<bar>d * t\<bar> \<le> 4 * P * 1"
      unfolding abs_mult using d4 t by (intro mult_mono) simp_all
    then have "\<bar>d * t\<bar> < 2 powr of_int (B + 3)" unfolding sh using P by simp
    with fl_defined [OF on_grid_mult [OF d(2) t(1)], of "B + 3"] g B
    obtain m where m: "fl (d * t) = Some m" "on_grid (g + - 2) m"
      "\<bar>m\<bar> \<le> 2 powr of_int (B + 3)" by auto
    have m8: "\<bar>m\<bar> \<le> 8 * P" using m(3) unfolding sh .
    have ag: "on_grid (g + - 2) a" using a(1) by (rule on_grid_finer) simp
    have "\<bar>a + m\<bar> \<le> \<bar>a\<bar> + \<bar>m\<bar>" by (rule abs_triangle_ineq)
    with aP m8 P have "\<bar>a + m\<bar> < 16 * P" by linarith
    then have "\<bar>a + m\<bar> < 2 powr of_int (B + 4)" unfolding sh .
    with fl_defined [OF on_grid_add [OF ag m(2)], of "B + 4"] g B
    obtain r where r: "fl (a + m) = Some r" "on_grid (g + - 2) r"
      "\<bar>r\<bar> \<le> 2 powr of_int (B + 4)" by auto
    have "lerp a b t = Some r" using False d(1) m(1) r(1) by (simp add: lerp_def)
    with r show ?thesis by auto
  qed
qed

lemma on_grid_of_int: "on_grid (- 2) (of_int m)"
  unfolding on_grid_def by (rule exI [of _ "4 * m"]) (simp add: powr_neg_numeral)

lemma on_grid_quarters: "on_grid (- 2) (of_int m / 4)"
  unfolding on_grid_def by (rule exI [of _ m]) (simp add: powr_neg_numeral)

lemma quantile_defined:
  assumes v: "v \<noteq> []" "\<forall>p\<in>set v. on_grid g p \<and> \<bar>p\<bar> \<le> 2 powr of_int B"
    and q: "q = 1 / 4 \<or> q = 3 / 4"
    and g: "- 1020 \<le> g" "g \<le> 0" and B: "0 \<le> B" "B \<le> 1000"
  shows "\<exists>r. quantile v q = Some r \<and> on_grid (g - 2) r \<and> \<bar>r\<bar> \<le> 2 powr of_int (B + 4)"
proof -
  define n where "n = length v"
  have n: "0 < n" using v(1) by (simp add: n_def)
  define h where "h = real (n - 1) * q"
  define lo where "lo = nat \<lfloor>h\<rfloor>"
  define hi where "hi = min (lo + 1) (n - 1)"
  have q01: "0 \<le> q" "q \<le> 1" using q by auto
  have "lo < n" unfolding lo_def h_def by (rule quantile_index [OF n q01])
  then have lo: "lo < length v" by (simp add: n_def)
  have "hi < n" unfolding hi_def using n by linarith
  then have hi: "hi < length v" by (simp add: n_def)
  have h0: "0 \<le> h" using q01 by (simp add: h_def)
  have hg: "on_grid (- 2) h"
  proof -
    from q have "h = of_int (int (n - 1)) / 4 \<or> h = of_int (3 * int (n - 1)) / 4"
      by (auto simp: h_def)
    then show ?thesis
    proof
      assume "h = of_int (int (n - 1)) / 4"
      then show ?thesis by (simp only: on_grid_quarters)
    next
      assume "h = of_int (3 * int (n - 1)) / 4"
      then show ?thesis by (simp only: on_grid_quarters)
    qed
  qed
  have rl: "real lo = of_int \<lfloor>h\<rfloor>" using h0 by (simp add: lo_def)
  have t: "on_grid (- 2) (h - real lo)" "0 \<le> h - real lo" "h - real lo < 1"
    unfolding rl using on_grid_diff [OF hg on_grid_of_int [of "\<lfloor>h\<rfloor>"]] by (simp_all) linarith+
  have a: "on_grid g (v ! lo)" "\<bar>v ! lo\<bar> \<le> 2 powr of_int B" using v(2) lo by simp_all
  have b: "on_grid g (v ! hi)" "\<bar>v ! hi\<bar> \<le> 2 powr of_int B" using v(2) hi by simp_all
  have "quantile v q = lerp (v ! lo) (v ! hi) (h - real lo)"
    by (simp add: quantile_def Let_def n_def h_def lo_def hi_def)
  with lerp_defined [OF a b t g B] show ?thesis by simp
qed

lemma iqr_flags_defined:
  assumes k: "moderate 20 k" and p: "\<forall>p\<in>set (observations sold_prices). moderate 60 p"
  shows "\<exists>f. compute_iqr_flags_cached sold_prices k = Some f"
proof -
  define v where "v = sort (observations sold_prices)"
  have guard: "is_double k \<and> list_all is_double (observations sold_prices)"
    using k p by (simp add: moderate_def list_all_iff)
  show ?thesis
  proof (cases "v = []")
    case True
    then show ?thesis
      using guard by (simp add: compute_iqr_flags_cached_def Let_def v_def [symmetric])
  next
    case False
    have el: "\<forall>p\<in>set v. on_grid (- 112) p \<and> \<bar>p\<bar> \<le> 2 powr of_int 60"
    proof
      fix x assume "x \<in> set v"
      then have "moderate 60 x" using p by (simp add: v_def)
      then show "on_grid (- 112) x \<and> \<bar>x\<bar> \<le> 2 powr of_int 60"
        using moderate_on_grid [of 60 x] by (simp add: moderate_def)
    qed
    from quantile_defined [OF False el, of "1 / 4"]
    obtain q1 where q1: "quantile v (1 / 4) = Some q1" "on_grid (- 114) q1"
      "\<bar>q1\<bar> \<le> 2 powr of_int 64" by auto
    from quantile_defined [OF False el, of "3 / 4"]
    obtain q3 where q3: "quantile v (3 / 4) = Some q3" "on_grid (- 114) q3"
      "\<bar>q3\<bar> \<le> 2 powr of_int 64" by auto
    have "\<bar>q3 - q1\<bar> \<le> \<bar>q3\<bar> + \<bar>q1\<bar>" by (rule abs_triangle_ineq4)
    with q1(3) q3(3) have "\<bar>q3 - q1\<bar> < 2 powr of_int 66" by simp
    with fl_defined [OF on_grid_diff [OF q3(2) q1(2)], of 66]
    obtain iqr where iqr: "fl (q3 - q1) = Some iqr" "on_grid (- 114) iqr"
      "\<bar>iqr\<bar> \<le> 2 powr of_int 66" by auto
    have kg: "on_grid (- 72) k" using moderate_on_grid [OF k] by simp
    have kb: "\<bar>k\<bar> \<le> 2 powr of_int 20" using k by (simp add: moderate_def)
    have "\<bar>k * iqr\<bar> \<le> 2 powr of_int 20 * 2 powr of_int 66"
      unfolding abs_mult using kb iqr(3) by (intro mult_mono) simp_all
    then have "\<bar>k * iqr\<bar> < 2 powr of_int 87" by simp
    with fl_defined [OF on_grid_mult [OF kg iqr(2)], of 87]
    obtain w where w: "fl (k * iqr) = Some w" "on_grid (- 186) w"
      "\<bar>w\<bar> \<le> 2 powr of_int 87" by auto
    have g1: "on_grid (- 186) q1" using q1(2) by (rule on_grid_finer) simp
    have g3: "on_grid (- 186) q3" using q3(2) by (rule on_grid_finer) simp
    have "\<bar>q1 - w\<bar> \<le> \<bar>q1\<bar> + \<bar>w\<bar>" by (rule abs_triangle_ineq4)
    with q1(3) w(3) have "\<bar>q1 - w\<bar> < 2 powr of_int 88" by simp
    with fl_defined [OF on_grid_diff [OF g1 w(2)], of 88]
    obtain lo where lo: "fl (q1 - w) = Some lo" by auto
    have "\<bar>q3 + w\<bar> \<le> \<bar>q3\<bar> + \<bar>w\<bar>" by (rule abs_triangle_ineq)
    with q3(3) w(3) have "\<bar>q3 + w\<bar> < 2 powr of_int 88" by simp
    with fl_defined [OF on_grid_add [OF g3 w(2)], of 88]
    obtain hi where hi: "fl (q3 + w) = Some hi" by auto
    show ?thesis
      using guard False q1(1) q3(1) iqr(1) w(1) lo hi
      by (simp add: compute_iqr_flags_cached_def Let_def v_def [symmetric])
  qed
qed

text \<open>
  Claim C7, amended. For every price list, every IQR multiplier \<open>k\<close> and every constant \<open>c\<close>
  that is a power of two, \<open>c = 2 ^ j\<close> for an integer \<open>j\<close>: whenever the rule computes flags
  for the prices and for the prices each multiplied by \<open>c\<close> without an overflow and without
  a subnormal intermediate result, the two lists of flags are identical, record by record.
  It does so, in particular, whenever \<open>k\<close> is zero or of a magnitude between \<open>2 ^ - 20\<close> and
  \<open>2 ^ 20\<close> and every price and every multiplied price is zero or of a magnitude between
  \<open>2 ^ - 60\<close> and \<open>2 ^ 60\<close>.
\<close>

theorem iqr_flags_power_of_two_scaling:
  assumes c: "c = 2 powr real_of_int j"
  shows "(\<forall>f1 f2. compute_iqr_flags_cached sold_prices k = Some f1
                \<and> compute_iqr_flags_cached (map (scale c) sold_prices) k = Some f2
              \<longrightarrow> f2 = f1)
       \<and> (moderate 20 k
          \<and> (\<forall>p\<in>set (observations sold_prices). moderate 60 p \<and> moderate 60 (c * p))
          \<longrightarrow> (\<exists>f. compute_iqr_flags_cached sold_prices k = Some f
                   \<and> compute_iqr_flags_cached (map (scale c) sold_prices) k = Some f))"
proof (intro conjI allI impI)
  fix f1 f2
  assume "compute_iqr_flags_cached sold_prices k = Some f1
          \<and> compute_iqr_flags_cached (map (scale c) sold_prices) k = Some f2"
  then show "f2 = f1" using iqr_flags_scale_eq [OF c] by blast
next
  assume h: "moderate 20 k
          \<and> (\<forall>p\<in>set (observations sold_prices). moderate 60 p \<and> moderate 60 (c * p))"
  then have "\<forall>p\<in>set (observations sold_prices). moderate 60 p" by blast
  with h obtain f1 where f1: "compute_iqr_flags_cached sold_prices k = Some f1"
    using iqr_flags_defined [of k sold_prices] by blast
  from h have "\<forall>p\<in>set (observations (map (scale c) sold_prices)). moderate 60 p"
    by (auto simp: observations_scale)
  with h obtain f2 where f2: "compute_iqr_flags_cached (map (scale c) sold_prices) k = Some f2"
    using iqr_flags_defined [of k "map (scale c) sold_prices"] by blast
  from iqr_flags_scale_eq [OF c f1 f2] f1 f2
  show "\<exists>f. compute_iqr_flags_cached sold_prices k = Some f
            \<and> compute_iqr_flags_cached (map (scale c) sold_prices) k = Some f"
    by blast
qed

lemma moderate_numeral:
  assumes "\<bar>numeral n :: int\<bar> < 2 ^ 53" "(numeral n :: real) \<le> 2 ^ 60"
  shows "moderate 60 (numeral n)"
proof -
  have "(2::real) powr (- 60) \<le> 2 powr 0" by (intro powr_mono) simp_all
  then have a: "(2::real) powr (- 60) \<le> 1" by simp
  have "(1::real) \<le> numeral n" by simp
  with a have "(2::real) powr (- 60) \<le> numeral n" by (rule order_trans)
  then show ?thesis
    using assms by (simp add: moderate_def is_double_numeral)
qed

lemma moderate_1_5: "moderate 20 (3 / 2)"
  by (simp add: moderate_def is_double_1_5 powr_neg_numeral)

lemma scenario_D_flags:
  "compute_iqr_flags_cached scenario_D (3 / 2) = Some [False, False, False, False, True]"
proof -
  have v: "sort (observations scenario_D) = [300000, 310000, 320000, 330000, 3200000]"
    by (simp add: observations_def scenario_D_def)
  have q1: "lerp 310000 320000 0 = Some 310000"
    by (rule lerp_zero [where d = 10000]) (simp_all add: fl_numeral)
  have q3: "lerp 330000 3200000 0 = Some 330000"
    by (rule lerp_zero [where d = 2870000]) (simp_all add: fl_numeral)
  have i: "fl (330000 - 310000) = Some 20000" by (simp add: fl_numeral)
  have w: "fl (3 / 2 * 20000) = Some 30000" by (simp add: fl_numeral)
  have lo: "fl (310000 - 30000) = Some 280000" by (simp add: fl_numeral)
  have hi: "fl (330000 + 30000) = Some 360000" by (simp add: fl_numeral)
  have g: "list_all is_double (observations scenario_D)"
    by (simp add: observations_def scenario_D_def is_double_numeral)
  have "compute_iqr_flags_cached scenario_D (3 / 2)
        = Some (map (\<lambda>x. flt x (Some 280000) \<or> fgt x (Some 360000)) scenario_D)"
    unfolding compute_iqr_flags_cached_def Let_def v
    by (simp only: g is_double_1_5 simp_thms list.distinct if_False quantile_five q1 q3
        Option.bind.simps i w lo hi)
  then show ?thesis by (simp add: scenario_D_def)
qed

text \<open>Scenario D with \<open>k = 1.5\<close>, and with every price doubled: only the price far above
  the others is flagged.\<close>

theorem iqr_flags_power_of_two_scaling_witness:
  "(2 :: real) = 2 powr real_of_int 1
   \<and> moderate 20 (3 / 2)
   \<and> moderate 60 300000 \<and> moderate 60 (2 * 300000)
   \<and> moderate 60 310000 \<and> moderate 60 (2 * 310000)
   \<and> moderate 60 320000 \<and> moderate 60 (2 * 320000)
   \<and> moderate 60 330000 \<and> moderate 60 (2 * 330000)
   \<and> moderate 60 3200000 \<and> moderate 60 (2 * 3200000)
   \<and> compute_iqr_flags_cached scenario_D (3 / 2) = Some [False, False, False, False, True]
   \<and> compute_iqr_flags_cached (map (scale 2) scenario_D) (3 / 2)
     = Some [False, False, False, False, True]"
proof -
  have c: "(2 :: real) = 2 powr real_of_int 1" by simp
  have m: "moderate 60 300000" "moderate 60 (2 * 300000)"
    "moderate 60 310000" "moderate 60 (2 * 310000)"
    "moderate 60 320000" "moderate 60 (2 * 320000)"
    "moderate 60 330000" "moderate 60 (2 * 330000)"
    "moderate 60 3200000" "moderate 60 (2 * 3200000)"
    by (simp_all add: moderate_numeral)
  have h: "moderate 20 (3 / 2)
           \<and> (\<forall>p\<in>set (observations scenario_D). moderate 60 p \<and> moderate 60 (2 * p))"
    using m by (simp add: moderate_1_5 observations_def scenario_D_def)
  from iqr_flags_power_of_two_scaling [OF c, of scenario_D "3 / 2"] h
  obtain f where "compute_iqr_flags_cached scenario_D (3 / 2) = Some f"
    "compute_iqr_flags_cached (map (scale 2) scenario_D) (3 / 2) = Some f" by blast
  then have "compute_iqr_flags_cached (map (scale 2) scenario_D) (3 / 2)
             = Some [False, False, False, False, True]"
    by (simp add: scenario_D_flags)
  with c m moderate_1_5 scenario_D_flags show ?thesis by simp
qed



subsection \<open>The index post-processor\<close>

lemma add_smoothed_length:
  "length (add_smoothed_and_regression index_df s) = length index_df"
  by (simp add: add_smoothed_and_regression_def Let_def)

lemma add_smoothed_std:
  "i < length index_df \<Longrightarrow>
     Index_Std (add_smoothed_and_regression index_df s ! i)
       = fillna 0 (rolling_std (nat (max 2 s)) (map Index_Raw index_df) i)"
  by (simp add: add_smoothed_and_regression_def Let_def)

lemma add_smoothed_degenerate:
  assumes "length (finite_points (map Index_Raw index_df)) < 2"
  shows "map Index_Regression (add_smoothed_and_regression index_df s)
       = map Index_Smoothed (add_smoothed_and_regression index_df s)"
  using assms by (simp add: add_smoothed_and_regression_def Let_def)

text \<open>
  Claim C9. The post-processor clamps the smoothing window to at least 2 instead of
  rejecting a smaller value: the result for any \<open>smooth_window\<close> is the result for
  \<open>max 2 smooth_window\<close>. The rolling standard deviation of a window is the sample standard
  deviation of its observations when there are at least two, and 0 otherwise. And the
  regression column equals the smoothed column whenever fewer than two finite raw index
  points exist.
\<close>

theorem post_processor_degenerate_cases:
  "add_smoothed_and_regression index_df s = add_smoothed_and_regression index_df (max 2 s)
   \<and> length (add_smoothed_and_regression index_df s) = length index_df
   \<and> (\<forall>i < length index_df.
        Index_Std (add_smoothed_and_regression index_df s ! i)
          = (if 2 \<le> length (observations
                             (rolling_window (nat (max 2 s)) i (map Index_Raw index_df)))
             then Some (sample_std
                          (observations
                             (rolling_window (nat (max 2 s)) i (map Index_Raw index_df))))
             else Some 0))
   \<and> (length (finite_points (map Index_Raw index_df)) < 2 \<longrightarrow>
        map Index_Regression (add_smoothed_and_regression index_df s)
          = map Index_Smoothed (add_smoothed_and_regression index_df s))"
proof (intro conjI allI impI)
  show "add_smoothed_and_regression index_df s = add_smoothed_and_regression index_df (max 2 s)"
    by (simp add: add_smoothed_and_regression_def)
next
  show "length (add_smoothed_and_regression index_df s) = length index_df"
    by (rule add_smoothed_length)
next
  fix i assume "i < length index_df"
  then show "Index_Std (add_smoothed_and_regression index_df s ! i)
          = (if 2 \<le> length (observations
                             (rolling_window (nat (max 2 s)) i (map Index_Raw index_df)))
             then Some (sample_std
                          (observations
                             (rolling_window (nat (max 2 s)) i (map Index_Raw index_df))))
             else Some 0)"
    by (simp add: add_smoothed_std rolling_std_def fillna_def Let_def)
next
  assume "length (finite_points (map Index_Raw index_df)) < 2"
  then show "map Index_Regression (add_smoothed_and_regression index_df s)
          = map Index_Smoothed (add_smoothed_and_regression index_df s)"
    by (rule add_smoothed_degenerate)
qed

lemma gap_series_finite_points: "finite_points (map Index_Raw gap_series) = [(0, 1)]"
  by (simp add: gap_series_def finite_points_def List.map_filter_def upt_rec)

text \<open>A two-month series whose second raw index is NaN, post-processed with window 0.\<close>

theorem post_processor_degenerate_cases_witness:
  "length (finite_points (map Index_Raw gap_series)) < 2
   \<and> (1::nat) < length gap_series
   \<and> Index_Std (add_smoothed_and_regression gap_series 0 ! 1) = Some 0
   \<and> map Index_Regression (add_smoothed_and_regression gap_series 0)
     = map Index_Smoothed (add_smoothed_and_regression gap_series 0)
   \<and> add_smoothed_and_regression gap_series 0 = add_smoothed_and_regression gap_series 2"
proof -
  have h: "length (finite_points (map Index_Raw gap_series)) < 2"
    by (simp add: gap_series_finite_points)
  have l: "(1::nat) < length gap_series" by (simp add: gap_series_def)
  have o: "observations (rolling_window (nat (max 2 0)) 1 (map Index_Raw gap_series)) = [1]"
    by (simp add: gap_series_def rolling_window_def observations_def List.map_filter_def)
  note t = post_processor_degenerate_cases [of gap_series 0]
  from t have a: "add_smoothed_and_regression gap_series 0
                = add_smoothed_and_regression gap_series (max 2 0)" by (rule conjunct1)
  from t l have "Index_Std (add_smoothed_and_regression gap_series 0 ! 1)
          = (if 2 \<le> length (observations
                             (rolling_window (nat (max 2 0)) 1 (map Index_Raw gap_series)))
             then Some (sample_std
                          (observations
                             (rolling_window (nat (max 2 0)) 1 (map Index_Raw gap_series))))
             else Some 0)" by blast
  then have c: "Index_Std (add_smoothed_and_regression gap_series 0 ! 1) = Some 0"
    unfolding o by simp
  from t h have d: "map Index_Regression (add_smoothed_and_regression gap_series 0)
     = map Index_Smoothed (add_smoothed_and_regression gap_series 0)" by blast
  from a have a': "add_smoothed_and_regression gap_series 0
                 = add_smoothed_and_regression gap_series 2" by simp
  show ?thesis by (intro conjI h l c d a')
qed



subsection \<open>The regression of the outlier diagnostics is a least-squares fit\<close>

lemma sum_resid:
  fixes x y :: "real list"
  shows "length x = length y \<Longrightarrow>
     sum_list (map2 (\<lambda>x v. v - (a + b * x)) x y)
       = sum_list y - a * real (length x) - b * sum_list x"
  by (induction x y rule: list_induct2) (simp_all add: algebra_simps)

lemma sum_resid_x:
  fixes x y :: "real list"
  shows "length x = length y \<Longrightarrow>
     sum_list (map2 (\<lambda>x v. x * (v - (a + b * x))) x y)
       = sum_list (map2 (*) x y) - a * sum_list x - b * sum_list (map (\<lambda>x. x * x) x)"
  by (induction x y rule: list_induct2) (simp_all add: algebra_simps)

lemma sse_expand:
  fixes x y :: "real list"
  shows "length x = length y \<Longrightarrow>
     sse x y a' b' = sse x y a b
       + 2 * (a - a') * sum_list (map2 (\<lambda>x v. v - (a + b * x)) x y)
       + 2 * (b - b') * sum_list (map2 (\<lambda>x v. x * (v - (a + b * x))) x y)
       + sum_list (map (\<lambda>x. ((a - a') + (b - b') * x) ^ 2) x)"
  by (induction x y rule: list_induct2) (simp_all add: sse_def power2_eq_square algebra_simps)

lemma sum_sq_dev:
  fixes xs :: "real list"
  shows "sum_list (map (\<lambda>x. (x - m) ^ 2) xs)
       = sum_list (map (\<lambda>x. x * x) xs) - 2 * m * sum_list xs + real (length xs) * m ^ 2"
  by (induction xs) (simp_all add: power2_eq_square algebra_simps)

lemma sum_list_sq_zero:
  fixes f :: "real \<Rightarrow> real"
  assumes "sum_list (map (\<lambda>x. (f x) ^ 2) xs) = 0" "x \<in> set xs"
  shows "f x = 0"
proof -
  have "(sum_list (map (\<lambda>x. (f x) ^ 2) xs) = 0)
        = (\<forall>z\<in>set (map (\<lambda>x. (f x) ^ 2) xs). z = 0)"
    by (rule sum_list_nonneg_eq_0_iff) auto
  with assms(1) have "\<forall>z\<in>set (map (\<lambda>x. (f x) ^ 2) xs). z = 0" by simp
  with assms(2) show ?thesis by simp
qed

lemma singular_all_equal:
  fixes xs :: "real list"
  assumes "real (length xs) * sum_list (map (\<lambda>x. x * x) xs) - sum_list xs * sum_list xs = 0"
    and "x \<in> set xs"
  shows "x = sum_list xs / real (length xs)"
proof -
  define n where "n = real (length xs)"
  define m where "m = sum_list xs / n"
  have n: "0 < n" using assms(2) by (cases xs) (auto simp: n_def)
  have "n * sum_list (map (\<lambda>x. (x - m) ^ 2) xs)
        = n * sum_list (map (\<lambda>x. x * x) xs) - sum_list xs * sum_list xs"
    unfolding sum_sq_dev n_def [symmetric] m_def using n
    by (simp add: power2_eq_square field_simps)
  with assms(1) n have "sum_list (map (\<lambda>x. (x - m) ^ 2) xs) = 0" by (simp add: n_def)
  from sum_list_sq_zero [OF this assms(2)] show ?thesis by (simp add: m_def n_def)
qed

lemma sums_of_constant:
  fixes x y :: "real list"
  assumes "length x = length y" "\<forall>u\<in>set x. u = c"
  shows "sum_list x = real (length x) * c
       \<and> sum_list (map (\<lambda>x. x * x) x) = real (length x) * (c * c)
       \<and> sum_list (map2 (*) x y) = c * sum_list y"
  using assms by (induction x y rule: list_induct2) (simp_all add: algebra_simps)

lemma normal_equations:
  fixes x y :: "real list"
  assumes len: "length x = length y"
  shows "real (length x) * fst (beta x y) + sum_list x * snd (beta x y) = sum_list y
       \<and> sum_list x * fst (beta x y) + sum_list (map (\<lambda>x. x * x) x) * snd (beta x y)
         = sum_list (map2 (*) x y)"
proof -
  define n where "n = real (length x)"
  define Sx where "Sx = sum_list x"
  define Sxx where "Sxx = sum_list (map (\<lambda>x. x * x) x)"
  define Sy where "Sy = sum_list y"
  define Sxy where "Sxy = sum_list (map2 (*) x y)"
  define det where "det = n * Sxx - Sx * Sx"
  have A: "XtX x = (n, Sx, Sx, Sxx)" by (simp add: XtX_def n_def Sx_def Sxx_def)
  show ?thesis
    unfolding n_def [symmetric] Sx_def [symmetric] Sxx_def [symmetric] Sy_def [symmetric]
      Sxy_def [symmetric]
  proof (cases "det = 0")
    case False
    have "XtX_inv x = (Sxx / det, - Sx / det, - Sx / det, n / det)"
      using False by (simp add: XtX_inv_def A linalg_inv_def det_def Let_def)
    then have b: "beta x y = (Sxx / det * Sy + - Sx / det * Sxy, - Sx / det * Sy + n / det * Sxy)"
      by (simp add: beta_def Sy_def Sxy_def Let_def)
    have 1: "n * (Sxx / det * Sy + - Sx / det * Sxy) + Sx * (- Sx / det * Sy + n / det * Sxy)
             = (n * Sxx - Sx * Sx) * Sy / det"
      using False by (simp add: field_simps)
    have 2: "Sx * (Sxx / det * Sy + - Sx / det * Sxy) + Sxx * (- Sx / det * Sy + n / det * Sxy)
             = (n * Sxx - Sx * Sx) * Sxy / det"
      using False by (simp add: field_simps)
    show "n * fst (beta x y) + Sx * snd (beta x y) = Sy
        \<and> Sx * fst (beta x y) + Sxx * snd (beta x y) = Sxy"
      unfolding b fst_conv snd_conv 1 2 using False by (simp add: det_def)
  next
    case True
    show "n * fst (beta x y) + Sx * snd (beta x y) = Sy
        \<and> Sx * fst (beta x y) + Sxx * snd (beta x y) = Sxy"
    proof (cases "x = []")
      case True
      with len show ?thesis by (simp add: n_def Sx_def Sxx_def Sy_def Sxy_def)
    next
      case False
      define c where "c = Sx / n"
      have n: "0 < n" using False by (cases x) (auto simp: n_def)
      have "\<forall>u\<in>set x. u = c"
        using True singular_all_equal [of x]
        by (simp add: det_def n_def Sx_def Sxx_def c_def)
      from sums_of_constant [OF len this]
      have s: "Sx = n * c" "Sxx = n * (c * c)" "Sxy = c * Sy"
        by (simp_all add: n_def Sx_def Sxx_def Sxy_def Sy_def)
      define t where "t = n + Sxx"
      have t: "t = n * (1 + c * c)" by (simp add: t_def s algebra_simps)
      have tpos: "0 < t" unfolding t using n by (intro mult_pos_pos) (auto intro: add_pos_nonneg)
      have "linalg_inv (XtX x) = None" using True by (simp add: A linalg_inv_def det_def Let_def)
      then have "XtX_inv x = (n / t ^ 2, Sx / t ^ 2, Sx / t ^ 2, Sxx / t ^ 2)"
        using tpos by (simp add: XtX_inv_def A linalg_pinv_def t_def Let_def)
      then have b: "beta x y = (n / t ^ 2 * Sy + Sx / t ^ 2 * Sxy, Sx / t ^ 2 * Sy + Sxx / t ^ 2 * Sxy)"
        by (simp add: beta_def Sy_def Sxy_def Let_def)
      have tz: "t \<noteq> 0" using tpos by simp
      have e1: "n * (n / t ^ 2 * Sy + Sx / t ^ 2 * Sxy) + Sx * (Sx / t ^ 2 * Sy + Sxx / t ^ 2 * Sxy)
              = (n * (n * Sy + Sx * Sxy) + Sx * (Sx * Sy + Sxx * Sxy)) / t ^ 2"
        using tz by (simp add: field_simps)
      have n1: "n * (n * Sy + Sx * Sxy) + Sx * (Sx * Sy + Sxx * Sxy) = t ^ 2 * Sy"
        unfolding s t by (simp add: power2_eq_square algebra_simps)
      have 1: "n * (n / t ^ 2 * Sy + Sx / t ^ 2 * Sxy) + Sx * (Sx / t ^ 2 * Sy + Sxx / t ^ 2 * Sxy) = Sy"
        unfolding e1 n1 using tz by simp
      have e2: "Sx * (n / t ^ 2 * Sy + Sx / t ^ 2 * Sxy) + Sxx * (Sx / t ^ 2 * Sy + Sxx / t ^ 2 * Sxy)
              = (Sx * (n * Sy + Sx * Sxy) + Sxx * (Sx * Sy + Sxx * Sxy)) / t ^ 2"
        using tz by (simp add: field_simps)
      have n2: "Sx * (n * Sy + Sx * Sxy) + Sxx * (Sx * Sy + Sxx * Sxy) = t ^ 2 * (c * Sy)"
        unfolding s t by (simp add: power2_eq_square algebra_simps)
      have 2: "Sx * (n / t ^ 2 * Sy + Sx / t ^ 2 * Sxy) + Sxx * (Sx / t ^ 2 * Sy + Sxx / t ^ 2 * Sxy) = c * Sy"
        unfolding e2 n2 using tz by simp
      show ?thesis unfolding b fst_conv snd_conv 1 2 by (simp add: s)
    qed
  qed
qed

lemma least_squares:
  fixes x y :: "real list"
  assumes len: "length x = length y"
  shows "sse x y (fst (beta x y)) (snd (beta x y)) \<le> sse x y a' b'"
proof -
  define a where "a = fst (beta x y)"
  define b where "b = snd (beta x y)"
  from normal_equations [OF len]
  have ne: "real (length x) * a + sum_list x * b = sum_list y"
    "sum_list x * a + sum_list (map (\<lambda>x. x * x) x) * b = sum_list (map2 (*) x y)"
    by (simp_all add: a_def b_def)
  have r0: "sum_list (map2 (\<lambda>x v. v - (a + b * x)) x y) = 0"
    unfolding sum_resid [OF len] using ne(1) by (simp add: algebra_simps)
  have r1: "sum_list (map2 (\<lambda>x v. x * (v - (a + b * x))) x y) = 0"
    unfolding sum_resid_x [OF len] using ne(2) by (simp add: algebra_simps)
  have "0 \<le> sum_list (map (\<lambda>x. ((a - a') + (b - b') * x) ^ 2) x)"
    by (rule sum_list_nonneg) auto
  then show ?thesis
    unfolding a_def [symmetric] b_def [symmetric] sse_expand [OF len, of a' b' a b] r0 r1
    by simp
qed



subsection \<open>The regression-residual rule\<close>

lemma length_elapsed_days: "length (elapsed_days ds) = length ds"
  by (simp add: elapsed_days_def Let_def)

lemma length_log_price: "length (log_price ps) = length ps"
  by (simp add: log_price_def)

lemma length_resid: "length x = length y \<Longrightarrow> length (resid x y) = length x"
  by (simp add: resid_def)

lemma length_hat_diag: "length (hat_diag x) = length x"
  by (cases "XtX_inv x") (simp add: hat_diag_def)

lemma cooks_rows:
  assumes "6 \<le> length (dropna df)"
  shows "length (cooks_distance_time_regression df) = length (dropna df)"
    and "i < length (dropna df) \<Longrightarrow>
           cooks_distance_time_regression df ! i =
             \<lparr>RowDate = fst (dropna df ! i), RowPrice = snd (dropna df ! i),
              Leverage = Some (hat_diag (elapsed_days (map fst (dropna df))) ! i),
              CooksD = Some (cooks (resid (elapsed_days (map fst (dropna df)))
                                          (log_price (map snd (dropna df))))
                                   (hat_diag (elapsed_days (map fst (dropna df)))) ! i),
              HighLeverage = (studentized (resid (elapsed_days (map fst (dropna df)))
                                                 (log_price (map snd (dropna df)))) ! i > 2),
              HighCooksD = (cooks (resid (elapsed_days (map fst (dropna df)))
                                         (log_price (map snd (dropna df))))
                                  (hat_diag (elapsed_days (map fst (dropna df)))) ! i
                            > 4 / real (length (dropna df)))\<rparr>"
  using assms by (simp_all add: cooks_distance_time_regression_def flag_rows_def Let_def)

lemma cooks_rows_few:
  assumes "length (dropna df) < 6"
  shows "length (cooks_distance_time_regression df) = length (dropna df)"
    and "r \<in> set (cooks_distance_time_regression df) \<Longrightarrow> \<not> HighLeverage r \<and> \<not> HighCooksD r"
  using assms by (auto simp add: cooks_distance_time_regression_def Let_def)

lemma elapsed_days_nth:
  assumes "i < length ds"
  shows "elapsed_days ds ! i = real_of_int (toordinal (ds ! i) - Min (toordinal ` set ds))"
proof -
  from assms have "map toordinal ds \<noteq> []" by auto
  then have "min_list (map toordinal ds) = Min (set (map toordinal ds))" by (rule min_list_Min)
  then show ?thesis using assms by (simp add: elapsed_days_def Let_def)
qed

lemma resid_nth:
  assumes "length x = length y" "i < length x"
  shows "resid x y ! i = y ! i - (fst (beta x y) + snd (beta x y) * x ! i)"
  using assms by (simp add: resid_def)

lemma studentized_nth:
  assumes "i < length e"
  shows "studentized e ! i = \<bar>e ! i\<bar> / (if np_std e > 0 then np_std e else 1)"
  using assms by (simp add: studentized_def resid_std_def)

lemma cooks_nth:
  assumes "length e = length H" "i < length e"
  shows "cooks e H ! i = (e ! i) ^ 2 / (2 * (mse e + eps)) * (H ! i / (max eps (1 - H ! i)) ^ 2)"
  using assms by (simp add: cooks_def)

lemma elapsed_days_zero:
  assumes "ds \<noteq> []"
  shows "0 \<in> set (elapsed_days ds)"
proof -
  from assms have ne: "map toordinal ds \<noteq> []" by simp
  then have "min_list (map toordinal ds) = Min (set (map toordinal ds))" by (rule min_list_Min)
  moreover have "Min (set (map toordinal ds)) \<in> set (map toordinal ds)"
    using ne by (intro Min_in) simp_all
  ultimately obtain d where d: "d \<in> set ds" "toordinal d = min_list (map toordinal ds)"
    by auto
  then have "real_of_int (toordinal d - min_list (map toordinal ds)) \<in> set (elapsed_days ds)"
    unfolding elapsed_days_def Let_def by (simp del: of_int_diff)
  with d(2) show ?thesis by simp
qed

lemma hat_diag_leverage:
  fixes x :: "real list"
  assumes z: "0 \<in> set x" and i: "i < length x"
  shows "hat_diag x ! i
       = 1 / real (length x)
         + (if sum_list (map (\<lambda>u. (u - sum_list x / real (length x)) ^ 2) x) = 0 then 0
            else (x ! i - sum_list x / real (length x)) ^ 2
                 / sum_list (map (\<lambda>u. (u - sum_list x / real (length x)) ^ 2) x))"
proof -
  define n where "n = real (length x)"
  define Sx where "Sx = sum_list x"
  define Sxx where "Sxx = sum_list (map (\<lambda>x. x * x) x)"
  define det where "det = n * Sxx - Sx * Sx"
  define c where "c = sum_list (map (\<lambda>u. (u - Sx / n) ^ 2) x)"
  have n: "0 < n" using i by (cases x) (simp_all add: n_def)
  have A: "XtX x = (n, Sx, Sx, Sxx)" by (simp add: XtX_def n_def Sx_def Sxx_def)
  have c: "n * c = det"
    unfolding c_def sum_sq_dev n_def [symmetric] Sx_def [symmetric] Sxx_def [symmetric] det_def
    using n by (simp add: power2_eq_square field_simps)
  show ?thesis
    unfolding n_def [symmetric] Sx_def [symmetric] c_def [symmetric]
  proof (cases "det = 0")
    case False
    with c n have c0: "c \<noteq> 0" by auto
    have inv: "XtX_inv x = (Sxx / det, - Sx / det, - Sx / det, n / det)"
      using False by (simp add: XtX_inv_def A linalg_inv_def Let_def det_def)
    have "hat_diag x ! i = (Sxx - 2 * Sx * x ! i + n * (x ! i) ^ 2) / det"
      using i False by (simp add: hat_diag_def inv power2_eq_square field_simps)
    also have "\<dots> = (n * c + n * (n * (x ! i - Sx / n) ^ 2)) / (n * det)"
      unfolding c det_def using n False
      by (simp add: power2_eq_square field_simps det_def)
    also have "\<dots> = 1 / n + (x ! i - Sx / n) ^ 2 / c"
      unfolding c [symmetric] using n c0 by (simp add: field_simps)
    finally show "hat_diag x ! i = 1 / n + (if c = 0 then 0 else (x ! i - Sx / n) ^ 2 / c)"
      using c0 by simp
  next
    case True
    with c n have c0: "c = 0" by auto
    from True have s: "real (length x) * sum_list (map (\<lambda>x. x * x) x) - sum_list x * sum_list x = 0"
      by (simp add: det_def n_def Sx_def Sxx_def)
    from singular_all_equal [OF s z] have "Sx = 0" using n by (simp add: Sx_def n_def)
    with True n have "Sxx = 0" by (simp add: det_def)
    have inv: "XtX_inv x = (1 / n, 0, 0, 0)"
      using n by (simp add: XtX_inv_def A linalg_inv_def linalg_pinv_def Let_def
          \<open>Sx = 0\<close> \<open>Sxx = 0\<close> power2_eq_square)
    have "hat_diag x ! i = 1 / n" using i by (simp add: hat_diag_def inv)
    then show "hat_diag x ! i = 1 / n + (if c = 0 then 0 else (x ! i - Sx / n) ^ 2 / c)"
      using c0 by simp
  qed
qed

lemma mse_six:
  assumes "6 \<le> length e"
  shows "mse e = sum_list (map (\<lambda>v. v ^ 2) e) / (real (length e) - 2)"
proof -
  from assms have "max 1 (real (length e) - 2) = real (length e) - 2" by simp
  then show ?thesis by (simp add: mse_def)
qed

lemma np_std_nth:
  "np_std e = sqrt (sum_list (map (\<lambda>v. (v - sum_list e / real (length e)) ^ 2) e)
                    / real (length e))"
  by (simp add: np_std_def mean_def)

lemma flag_rows_length: "length (flag_rows out r H) = length out"
  by (simp add: flag_rows_def Let_def)

lemma flag_rows_nth:
  assumes "i < length out"
  shows "flag_rows out r H ! i =
           \<lparr>RowDate = fst (out ! i), RowPrice = snd (out ! i),
            Leverage = Some (H ! i), CooksD = Some (cooks r H ! i),
            HighLeverage = (studentized r ! i > 2),
            HighCooksD = (cooks r H ! i > 4 / real (length out))\<rparr>"
  using assms by (simp add: flag_rows_def Let_def)

lemma regression_stages:
  assumes "6 \<le> length (dropna df)"
  shows "cooks_distance_time_regression df
         = flag_rows (dropna df)
             (resid (elapsed_days (map fst (dropna df))) (log_price (map snd (dropna df))))
             (hat_diag (elapsed_days (map fst (dropna df))))"
  using assms by (simp add: cooks_distance_time_regression_def Let_def)

text \<open>
  Claim C5, amended. The regression-residual rule sets no flag when fewer than 6 records
  have a date and a price. Otherwise the fitted line \<open>a + b * x\<close> is an ordinary
  least-squares fit (it minimises the sum of squared errors) of \<open>y = ln (max 1 price)\<close>
  against \<open>x\<close>, the days elapsed since the earliest date; the residuals are
  \<open>e i = y i - (a + b * x i)\<close> and the leverage \<open>H i\<close> is \<open>1 / n\<close> plus the squared deviation
  of \<open>x i\<close> from the mean of \<open>x\<close> divided by the sum of the squared deviations of all \<open>x j\<close>
  (\<open>1 / n\<close> alone when all dates coincide). The flags are those that lines 974 to 990
  compute from \<open>e\<close> and \<open>H\<close>; and from any residuals \<open>r\<close> and leverages \<open>h\<close> these lines flag
  record \<open>i\<close> as a price-deviation outlier exactly when \<open>\<bar>r i\<bar>\<close> divided by the population
  standard deviation of \<open>r\<close> (1 when that is zero) exceeds 2, and as a high-influence
  outlier exactly when the guarded statistic
  \<open>D i = (r i) ^ 2 / (2 * (mse + eps)) * (h i / (max eps (1 - h i)) ^ 2)\<close>, with
  \<open>eps = 1 / 10 ^ 12\<close> and \<open>mse\<close> the sum of the squared residuals divided by \<open>n - 2\<close>,
  exceeds \<open>4 / n\<close>.
\<close>

theorem regression_residual_rule:
  "(length (dropna df) < 6 \<longrightarrow>
      length (cooks_distance_time_regression df) = length (dropna df)
      \<and> (\<forall>r\<in>set (cooks_distance_time_regression df). \<not> HighLeverage r \<and> \<not> HighCooksD r))
   \<and> (6 \<le> length (dropna df) \<longrightarrow>
      (let out = dropna df;
           x = elapsed_days (map fst out);
           y = log_price (map snd out);
           n = length out;
           a = fst (beta x y);
           b = snd (beta x y);
           e = resid x y;
           H = hat_diag x;
           xm = sum_list x / real n;
           sxx = sum_list (map (\<lambda>u. (u - xm) ^ 2) x)
       in cooks_distance_time_regression df = flag_rows out e H
        \<and> (\<forall>a' b'. sse x y a b \<le> sse x y a' b')
        \<and> (\<forall>i<n.
              x ! i = real_of_int (toordinal (fst (out ! i)) - Min (toordinal ` fst ` set out))
            \<and> y ! i = ln (max 1 (snd (out ! i)))
            \<and> e ! i = y ! i - (a + b * x ! i)
            \<and> H ! i = 1 / real n + (if sxx = 0 then 0 else (x ! i - xm) ^ 2 / sxx))
        \<and> (\<forall>r h. length r = n \<and> length h = n \<longrightarrow>
             (let sd = sqrt (sum_list (map (\<lambda>v. (v - sum_list r / real n) ^ 2) r) / real n);
                  s2 = sum_list (map (\<lambda>v. v ^ 2) r) / (real n - 2);
                  D = (\<lambda>i. (r ! i) ^ 2 / (2 * (s2 + 1 / 10 ^ 12))
                            * (h ! i / (max (1 / 10 ^ 12) (1 - h ! i)) ^ 2))
              in length (flag_rows out r h) = n
               \<and> (\<forall>i<n.
                     HighLeverage (flag_rows out r h ! i)
                       = (\<bar>r ! i\<bar> / (if sd > 0 then sd else 1) > 2)
                   \<and> Leverage (flag_rows out r h ! i) = Some (h ! i)
                   \<and> CooksD (flag_rows out r h ! i) = Some (D i)
                   \<and> HighCooksD (flag_rows out r h ! i) = (D i > 4 / real n))))))"
proof (intro conjI impI)
  assume "length (dropna df) < 6"
  then show "length (cooks_distance_time_regression df) = length (dropna df)"
    by (rule cooks_rows_few(1))
next
  assume "length (dropna df) < 6"
  then show "\<forall>r\<in>set (cooks_distance_time_regression df). \<not> HighLeverage r \<and> \<not> HighCooksD r"
    using cooks_rows_few(2) by blast
next
  assume six: "6 \<le> length (dropna df)"
  define out where "out = dropna df"
  define x where "x = elapsed_days (map fst out)"
  define y where "y = log_price (map snd out)"
  define n where "n = length out"
  define e where "e = resid x y"
  define H where "H = hat_diag x"
  define xm where "xm = sum_list x / real n"
  define sxx where "sxx = sum_list (map (\<lambda>u. (u - xm) ^ 2) x)"
  have lx: "length x = n" by (simp add: x_def n_def length_elapsed_days)
  have ly: "length y = n" by (simp add: y_def n_def length_log_price)
  have lxy: "length x = length y" by (simp add: lx ly)
  have n6: "6 \<le> n" using six by (simp add: n_def out_def)
  have z: "0 \<in> set x"
    unfolding x_def using n6 by (intro elapsed_days_zero) (auto simp: n_def)
  have 1: "cooks_distance_time_regression df = flag_rows out e H"
    unfolding out_def e_def H_def x_def y_def using six by (rule regression_stages)
  have 2: "\<forall>a' b'. sse x y (fst (beta x y)) (snd (beta x y)) \<le> sse x y a' b'"
    using least_squares [OF lxy] by blast
  have 3: "x ! i = real_of_int (toordinal (fst (out ! i)) - Min (toordinal ` fst ` set out))
            \<and> y ! i = ln (max 1 (snd (out ! i)))
            \<and> e ! i = y ! i - (fst (beta x y) + snd (beta x y) * x ! i)
            \<and> H ! i = 1 / real n + (if sxx = 0 then 0 else (x ! i - xm) ^ 2 / sxx)"
    if i: "i < n" for i
  proof -
    from i have i': "i < length out" by (simp add: n_def)
    have a: "x ! i = real_of_int (toordinal (fst (out ! i)) - Min (toordinal ` fst ` set out))"
      unfolding x_def using i' by (simp add: elapsed_days_nth)
    have b: "y ! i = ln (max 1 (snd (out ! i)))"
      unfolding y_def using i' by (simp add: log_price_def)
    have c: "e ! i = y ! i - (fst (beta x y) + snd (beta x y) * x ! i)"
      unfolding e_def using i lx by (intro resid_nth [OF lxy]) simp
    have d: "H ! i = 1 / real n + (if sxx = 0 then 0 else (x ! i - xm) ^ 2 / sxx)"
      unfolding H_def sxx_def xm_def lx [symmetric] using i lx
      by (intro hat_diag_leverage [OF z]) simp
    show ?thesis using a b c d by simp
  qed
  have 4: "length (flag_rows out r h) = n
         \<and> (\<forall>i<n.
               HighLeverage (flag_rows out r h ! i)
                 = (\<bar>r ! i\<bar>
                    / (if sqrt (sum_list (map (\<lambda>v. (v - sum_list r / real n) ^ 2) r) / real n) > 0
                       then sqrt (sum_list (map (\<lambda>v. (v - sum_list r / real n) ^ 2) r) / real n)
                       else 1) > 2)
             \<and> Leverage (flag_rows out r h ! i) = Some (h ! i)
             \<and> CooksD (flag_rows out r h ! i)
                 = Some ((r ! i) ^ 2
                         / (2 * (sum_list (map (\<lambda>v. v ^ 2) r) / (real n - 2) + 1 / 10 ^ 12))
                         * (h ! i / (max (1 / 10 ^ 12) (1 - h ! i)) ^ 2))
             \<and> HighCooksD (flag_rows out r h ! i)
                 = ((r ! i) ^ 2
                    / (2 * (sum_list (map (\<lambda>v. v ^ 2) r) / (real n - 2) + 1 / 10 ^ 12))
                    * (h ! i / (max (1 / 10 ^ 12) (1 - h ! i)) ^ 2) > 4 / real n))"
    if l: "length r = n \<and> length h = n" for r h
  proof (intro conjI allI impI)
    show "length (flag_rows out r h) = n" by (simp add: flag_rows_length n_def)
  next
    fix i assume i: "i < n"
    from l have lr: "length r = n" and lh: "length h = n" by simp_all
    have sd: "np_std r
              = sqrt (sum_list (map (\<lambda>v. (v - sum_list r / real n) ^ 2) r) / real n)"
      unfolding np_std_nth lr ..
    have s2: "mse r = sum_list (map (\<lambda>v. v ^ 2) r) / (real n - 2)"
      using mse_six [of r] n6 lr by simp
    have s: "studentized r ! i = \<bar>r ! i\<bar> / (if np_std r > 0 then np_std r else 1)"
      using i lr by (intro studentized_nth) simp
    have k: "cooks r h ! i
             = (r ! i) ^ 2 / (2 * (mse r + eps)) * (h ! i / (max eps (1 - h ! i)) ^ 2)"
      using i lr lh by (intro cooks_nth) simp_all
    have row: "flag_rows out r h ! i =
           \<lparr>RowDate = fst (out ! i), RowPrice = snd (out ! i),
            Leverage = Some (h ! i), CooksD = Some (cooks r h ! i),
            HighLeverage = (studentized r ! i > 2),
            HighCooksD = (cooks r h ! i > 4 / real n)\<rparr>"
      unfolding n_def using i by (intro flag_rows_nth) (simp add: n_def)
    show "HighLeverage (flag_rows out r h ! i)
                 = (\<bar>r ! i\<bar>
                    / (if sqrt (sum_list (map (\<lambda>v. (v - sum_list r / real n) ^ 2) r) / real n) > 0
                       then sqrt (sum_list (map (\<lambda>v. (v - sum_list r / real n) ^ 2) r) / real n)
                       else 1) > 2)"
      unfolding row s sd by simp
    show "Leverage (flag_rows out r h ! i) = Some (h ! i)" unfolding row by simp
    show "CooksD (flag_rows out r h ! i)
                 = Some ((r ! i) ^ 2
                         / (2 * (sum_list (map (\<lambda>v. v ^ 2) r) / (real n - 2) + 1 / 10 ^ 12))
                         * (h ! i / (max (1 / 10 ^ 12) (1 - h ! i)) ^ 2))"
      unfolding row k s2 eps_def by simp
    show "HighCooksD (flag_rows out r h ! i)
                 = ((r ! i) ^ 2
                    / (2 * (sum_list (map (\<lambda>v. v ^ 2) r) / (real n - 2) + 1 / 10 ^ 12))
                    * (h ! i / (max (1 / 10 ^ 12) (1 - h ! i)) ^ 2) > 4 / real n)"
      unfolding row k s2 eps_def by simp
  qed
  from 1 2 3 4
  show "let out = dropna df;
           x = elapsed_days (map fst out);
           y = log_price (map snd out);
           n = length out;
           a = fst (beta x y);
           b = snd (beta x y);
           e = resid x y;
           H = hat_diag x;
           xm = sum_list x / real n;
           sxx = sum_list (map (\<lambda>u. (u - xm) ^ 2) x)
       in cooks_distance_time_regression df = flag_rows out e H
        \<and> (\<forall>a' b'. sse x y a b \<le> sse x y a' b')
        \<and> (\<forall>i<n.
              x ! i = real_of_int (toordinal (fst (out ! i)) - Min (toordinal ` fst ` set out))
            \<and> y ! i = ln (max 1 (snd (out ! i)))
            \<and> e ! i = y ! i - (a + b * x ! i)
            \<and> H ! i = 1 / real n + (if sxx = 0 then 0 else (x ! i - xm) ^ 2 / sxx))
        \<and> (\<forall>r h. length r = n \<and> length h = n \<longrightarrow>
             (let sd = sqrt (sum_list (map (\<lambda>v. (v - sum_list r / real n) ^ 2) r) / real n);
                  s2 = sum_list (map (\<lambda>v. v ^ 2) r) / (real n - 2);
                  D = (\<lambda>i. (r ! i) ^ 2 / (2 * (s2 + 1 / 10 ^ 12))
                            * (h ! i / (max (1 / 10 ^ 12) (1 - h ! i)) ^ 2))
              in length (flag_rows out r h) = n
               \<and> (\<forall>i<n.
                     HighLeverage (flag_rows out r h ! i)
                       = (\<bar>r ! i\<bar> / (if sd > 0 then sd else 1) > 2)
                   \<and> Leverage (flag_rows out r h ! i) = Some (h ! i)
                   \<and> CooksD (flag_rows out r h ! i) = Some (D i)
                   \<and> HighCooksD (flag_rows out r h ! i) = (D i > 4 / real n))))"
    unfolding Let_def sxx_def xm_def H_def e_def n_def y_def x_def out_def
    by blast
qed

lemma toordinal_2024_01: "toordinal (2024, 1, k) = 738885 + k"
  by (simp add: toordinal_def days_before_year_def days_before_month_def is_leap_def)

lemma toordinal_2024_02_01: "toordinal (2024, 2, 1) = 738917"
  by (simp add: toordinal_def days_before_year_def days_before_month_def is_leap_def)

lemma dropna_linear_price_trend:
  "dropna linear_price_trend =
     [((2024, 1, 1), 100000), ((2024, 1, 2), 200000), ((2024, 1, 4), 400000),
      ((2024, 1, 8), 800000), ((2024, 1, 16), 1600000), ((2024, 2, 1), 3200000)]"
  by (simp add: linear_price_trend_def dropna_def List.map_filter_def)

lemma elapsed_linear_price_trend:
  "elapsed_days (map fst (dropna linear_price_trend)) = [0, 1, 3, 7, 15, 31]"
  by (simp add: dropna_linear_price_trend elapsed_days_def toordinal_2024_01 toordinal_2024_02_01)

lemma ln_doubling:
  "ln (200000 :: real) = ln 100000 + ln 2"
  "ln (400000 :: real) = ln 100000 + 2 * ln 2"
  "ln (800000 :: real) = ln 100000 + 3 * ln 2"
  "ln (1600000 :: real) = ln 100000 + 4 * ln 2"
  "ln (3200000 :: real) = ln 100000 + 5 * ln 2"
proof -
  have "ln (100000 * 2 ^ k :: real) = ln 100000 + real k * ln 2" for k
    by (simp add: ln_mult_pos ln_realpow)
  from this [of 1] this [of 2] this [of 3] this [of 4] this [of 5]
  show "ln (200000 :: real) = ln 100000 + ln 2"
    "ln (400000 :: real) = ln 100000 + 2 * ln 2"
    "ln (800000 :: real) = ln 100000 + 3 * ln 2"
    "ln (1600000 :: real) = ln 100000 + 4 * ln 2"
    "ln (3200000 :: real) = ln 100000 + 5 * ln 2"
    by simp_all
qed

lemma log_price_doubling:
  "log_price [100000, 200000, 400000, 800000, 1600000, 3200000]
   = [ln 100000, ln 100000 + ln 2, ln 100000 + 2 * ln 2, ln 100000 + 3 * ln 2,
      ln 100000 + 4 * ln 2, ln 100000 + 5 * ln 2]"
  by (simp add: log_price_def ln_doubling)

lemma trend_XtX_inv:
  "XtX_inv [0, 1, 3, 7, 15, 31] = (1245 / 4221, - 57 / 4221, - 57 / 4221, 6 / 4221)"
  by (simp add: XtX_inv_def XtX_def linalg_inv_def Let_def)

lemma trend_beta:
  "beta [0, 1, 3, 7, 15, 31] [C, C + L, C + 2 * L, C + 3 * L, C + 4 * L, C + 5 * L]
   = (C + 8 / 7 * L, L / 7)"
  by (simp add: beta_def trend_XtX_inv Let_def algebra_simps)

lemma trend_resid:
  "resid [0, 1, 3, 7, 15, 31] [C, C + L, C + 2 * L, C + 3 * L, C + 4 * L, C + 5 * L]
   = [- 8 / 7 * L, - 2 / 7 * L, 3 / 7 * L, 6 / 7 * L, 5 / 7 * L, - 4 / 7 * L]"
  unfolding resid_def trend_beta by (simp add: algebra_simps)

lemma trend_hat_diag: "hat_diag [0, 1, 3, 7, 15, 31] ! 5 = 1159 / 1407"
  by (simp add: hat_diag_def trend_XtX_inv)


lemma ln_2_lower: "1 / 2 \<le> ln (2 :: real)"
proof -
  have "ln (1 / 2 :: real) \<le> 1 / 2 - 1" by (rule ln_le_minus_one) simp
  moreover have "ln (1 / 2 :: real) = - ln 2" by (simp add: ln_div)
  ultimately show ?thesis by simp
qed

lemma ratio_bound:
  fixes a d k t :: real
  assumes "0 < d" "t * d < a * k"
  shows "t < a / d * k"
proof -
  have "t < a * k / d" using assms by (simp add: pos_less_divide_eq)
  then show ?thesis by simp
qed

lemma trend_cooks:
  assumes "1 / 2 \<le> L"
  shows "4 / 6
       < (- 4 / 7 * L) ^ 2 / (2 * (11 / 14 * L ^ 2 + eps))
         * ((1159 / 1407) / (max eps (1 - 1159 / 1407)) ^ 2)"
proof -
  define q where "q = L ^ 2"
  have q: "1 / 4 \<le> q"
  proof -
    have "(1 / 2) ^ 2 \<le> L ^ 2" using assms by (intro power_mono) simp_all
    then show ?thesis by (simp add: q_def power2_eq_square)
  qed
  have m: "max eps (1 - 1159 / 1407) = 248 / 1407" by (simp add: eps_def)
  have e: "(- 4 / 7 * L) ^ 2 = 16 / 49 * q" by (simp add: q_def power2_eq_square)
  have d: "0 < 2 * (11 / 14 * q + eps)" using q by (simp add: eps_def)
  have i: "4 / 6 * (2 * (11 / 14 * q + eps)) < 16 / 49 * q * ((1159 / 1407) / (248 / 1407) ^ 2)"
    using q by (simp add: eps_def power2_eq_square)
  show ?thesis unfolding m e q_def [symmetric] by (rule ratio_bound [OF d i])
qed

lemma dropna_near_constant:
  "dropna near_constant =
     [((2024, 1, 1), 300000), ((2024, 1, 2), 300000), ((2024, 1, 3), 300000),
      ((2024, 1, 4), 300000), ((2024, 1, 5), 300000), ((2024, 1, 6), 30000001 / 100)]"
  by (simp add: near_constant_def dropna_def)

lemma dropna_one_outlier:
  "dropna one_outlier =
     [((2024, 1, 1), 100000), ((2024, 1, 2), 100000), ((2024, 1, 3), 200000),
      ((2024, 1, 4), 100000), ((2024, 1, 5), 100000), ((2024, 1, 6), 100000)]"
  by (simp add: one_outlier_def dropna_def List.map_filter_def)


lemma elapsed_daily:
  "elapsed_days [(2024, 1, 1), (2024, 1, 2), (2024, 1, 3), (2024, 1, 4), (2024, 1, 5),
                 (2024, 1, 6)] = [0, 1, 2, 3, 4, 5]"
  by (simp add: elapsed_days_def toordinal_2024_01)

lemma daily_XtX_inv:
  "XtX_inv [0, 1, 2, 3, 4, 5] = (11 / 21, - 1 / 7, - 1 / 7, 2 / 35)"
  by (simp add: XtX_inv_def XtX_def linalg_inv_def Let_def)

lemma daily_hat_diag:
  "hat_diag [0, 1, 2, 3, 4, 5] = [11 / 21, 31 / 105, 19 / 105, 19 / 105, 31 / 105, 11 / 21]"
  by (simp add: hat_diag_def daily_XtX_inv)

lemma near_resid:
  "resid [0, 1, 2, 3, 4, 5] [C, C, C, C, C, C + d]
   = [4 / 21 * d, 1 / 21 * d, - 2 / 21 * d, - 5 / 21 * d, - 8 / 21 * d, 10 / 21 * d]"
proof -
  have b: "beta [0, 1, 2, 3, 4, 5] [C, C, C, C, C, C + d] = (C - 4 / 21 * d, d / 7)"
    by (simp add: beta_def daily_XtX_inv Let_def algebra_simps)
  show ?thesis unfolding resid_def b by (simp add: algebra_simps)
qed

lemma near_mse:
  "mse [4 / 21 * d, 1 / 21 * d, - 2 / 21 * d, - 5 / 21 * d, - 8 / 21 * d, 10 / 21 * d]
   = 5 / 42 * d ^ 2"
  by (simp add: mse_def power2_eq_square algebra_simps)

lemma outlier_resid:
  "resid [0, 1, 2, 3, 4, 5] [C, C, C + L, C, C, C]
   = [- 5 / 21 * L, - 22 / 105 * L, 86 / 105 * L, - 16 / 105 * L, - 13 / 105 * L,
      - 2 / 21 * L]"
proof -
  have b: "beta [0, 1, 2, 3, 4, 5] [C, C, C + L, C, C, C] = (C + 5 / 21 * L, - L / 35)"
    by (simp add: beta_def daily_XtX_inv Let_def algebra_simps)
  show ?thesis unfolding resid_def b by (simp add: algebra_simps)
qed


lemma log_price_near_constant:
  "log_price [300000, 300000, 300000, 300000, 300000, 30000001 / 100]
   = [ln 300000, ln 300000, ln 300000, ln 300000, ln 300000,
      ln 300000 + ln (30000001 / 30000000)]"
proof -
  have "ln (30000001 / 100 :: real) = ln (300000 * (30000001 / 30000000))" by simp
  also have "\<dots> = ln 300000 + ln (30000001 / 30000000)" by (rule ln_mult_pos) simp_all
  finally show ?thesis by (simp add: log_price_def)
qed

lemma small_log_bounds:
  "0 < ln (30000001 / 30000000 :: real)" "ln (30000001 / 30000000 :: real) \<le> 1 / 30000000"
proof -
  show "0 < ln (30000001 / 30000000 :: real)" by (rule ln_gt_zero) simp
  have "ln (30000001 / 30000000 :: real) \<le> 30000001 / 30000000 - 1"
    by (rule ln_le_minus_one) simp
  then show "ln (30000001 / 30000000 :: real) \<le> 1 / 30000000" by simp
qed

lemma near_cooks_spec:
  assumes "d \<noteq> 0"
  shows "(10 / 21 * d) ^ 2 / (2 * (5 / 42 * d ^ 2)) * ((11 / 21) / (1 - 11 / 21) ^ 2)
         = (11 / 5 :: real)"
  using assms by (simp add: power2_eq_square field_simps)

lemma ratio_le:
  fixes a d k t :: real
  assumes "0 < d" "a * k \<le> t * d"
  shows "a / d * k \<le> t"
proof -
  have "a * k / d \<le> t" using assms by (simp add: pos_divide_le_eq)
  then show ?thesis by simp
qed

lemma near_cooks:
  fixes d :: real
  assumes "0 < d" "d \<le> 1 / 30000000"
  shows "(10 / 21 * d) ^ 2 / (2 * (5 / 42 * d ^ 2 + eps))
           * ((11 / 21) / (max eps (1 - 11 / 21)) ^ 2) \<le> 4 / 6"
proof -
  define q where "q = d ^ 2"
  have "d ^ 2 \<le> (1 / 30000000) ^ 2" using assms by (intro power_mono) simp_all
  then have q: "q \<le> 1 / 900000000000000" by (simp add: q_def power2_eq_square)
  have q0: "0 \<le> q" by (simp add: q_def)
  have m: "max eps (1 - 11 / 21) = 10 / 21" by (simp add: eps_def)
  have e: "(10 / 21 * d) ^ 2 = 100 / 441 * q" by (simp add: q_def power2_eq_square)
  have p: "0 < 2 * (5 / 42 * q + eps)" using q0 by (simp add: eps_def add_nonneg_pos)
  have i: "100 / 441 * q * ((11 / 21) / (10 / 21) ^ 2) \<le> 4 / 6 * (2 * (5 / 42 * q + eps))"
    using q q0 by (simp add: eps_def power2_eq_square)
  show ?thesis unfolding m e q_def [symmetric] by (rule ratio_le [OF p i])
qed

lemma log_price_one_outlier:
  "log_price [100000, 100000, 200000, 100000, 100000, 100000]
   = [ln 100000, ln 100000, ln 100000 + ln 2, ln 100000, ln 100000, ln 100000]"
  by (simp add: log_price_def ln_doubling)

lemma ln_2_pos: "0 < ln (2 :: real)"
  by simp

lemma outlier_studentized:
  fixes L :: real
  assumes "0 < L"
  shows "2 < \<bar>86 / 105 * L\<bar> / (if 0 < sqrt (43 / 315 * L ^ 2) then sqrt (43 / 315 * L ^ 2) else 1)"
proof -
  have "sqrt (43 / 315 * L ^ 2) = sqrt (43 / 315) * sqrt (L ^ 2)" by (rule real_sqrt_mult)
  also have "sqrt (L ^ 2) = L" using assms by simp
  finally have s: "sqrt (43 / 315 * L ^ 2) = sqrt (43 / 315) * L" .
  have p: "0 < sqrt (43 / 315 :: real)" by simp
  have u: "sqrt (43 / 315 :: real) < 43 / 105"
    by (rule real_less_lsqrt) (simp_all add: power2_eq_square)
  have "2 * (sqrt (43 / 315) * L) < 86 / 105 * L" using u assms by simp
  then have "2 < (86 / 105 * L) / (sqrt (43 / 315) * L)"
    using p assms by (simp add: pos_less_divide_eq)
  then show ?thesis unfolding s using p assms by simp
qed

lemma outlier_std:
  "sqrt (sum_list (map (\<lambda>v. (v - sum_list [- 5 / 21 * L, - 22 / 105 * L, 86 / 105 * L,
                                              - 16 / 105 * L, - 13 / 105 * L, - 2 / 21 * L]
                                    / real (6 :: nat)) ^ 2)
                     [- 5 / 21 * L, - 22 / 105 * L, 86 / 105 * L, - 16 / 105 * L,
                      - 13 / 105 * L, - 2 / 21 * L]) / real (6 :: nat))
   = sqrt (43 / 315 * L ^ 2)"
  by (simp add: power2_eq_square algebra_simps)

lemma trend_s2:
  "sum_list (map (\<lambda>v. v ^ 2)
       [- 8 / 7 * L, - 2 / 7 * L, 3 / 7 * L, 6 / 7 * L, 5 / 7 * L, - 4 / 7 * L])
     / (real (6 :: nat) - 2) = 11 / 14 * L ^ 2"
  by (simp add: power2_eq_square algebra_simps)

text \<open>The two sales of scenario A (fewer than 6); six sales of which the third is at twice
  the price of the others, which carries the price-deviation flag; and six sales of which
  the last carries the high-influence flag.\<close>

theorem regression_residual_rule_witness:
  "length (dropna scenario_A) < 6
   \<and> \<not> HighLeverage (cooks_distance_time_regression scenario_A ! 0)
   \<and> \<not> HighCooksD (cooks_distance_time_regression scenario_A ! 0)
   \<and> \<not> HighLeverage (cooks_distance_time_regression scenario_A ! 1)
   \<and> \<not> HighCooksD (cooks_distance_time_regression scenario_A ! 1)
   \<and> 6 \<le> length (dropna one_outlier)
   \<and> HighLeverage (cooks_distance_time_regression one_outlier ! 2)
   \<and> Leverage (cooks_distance_time_regression one_outlier ! 2) = Some (19 / 105)
   \<and> 6 \<le> length (dropna linear_price_trend)
   \<and> HighCooksD (cooks_distance_time_regression linear_price_trend ! 5)"
proof -
  have h1: "length (dropna scenario_A) < 6"
    by (simp add: scenario_A_def dropna_def)
  have l1: "length (cooks_distance_time_regression scenario_A) = 2"
    using cooks_rows_few(1) [OF h1] by (simp add: scenario_A_def dropna_def)
  have m: "cooks_distance_time_regression scenario_A ! 0
             \<in> set (cooks_distance_time_regression scenario_A)"
    "cooks_distance_time_regression scenario_A ! 1
             \<in> set (cooks_distance_time_regression scenario_A)"
    by (simp_all add: l1)
  from regression_residual_rule [of scenario_A] h1
  have a: "\<forall>r\<in>set (cooks_distance_time_regression scenario_A). \<not> HighLeverage r \<and> \<not> HighCooksD r"
    by blast
  from a m have c: "\<not> HighLeverage (cooks_distance_time_regression scenario_A ! 0)"
    "\<not> HighCooksD (cooks_distance_time_regression scenario_A ! 0)"
    "\<not> HighLeverage (cooks_distance_time_regression scenario_A ! 1)"
    "\<not> HighCooksD (cooks_distance_time_regression scenario_A ! 1)" by blast+
  have r6: "real (6 :: nat) = 6" by simp
  have h2: "6 \<le> length (dropna one_outlier)" by (simp add: dropna_one_outlier)
  have n2: "length (dropna one_outlier) = 6" by (simp add: dropna_one_outlier)
  have x2: "elapsed_days (map fst (dropna one_outlier)) = [0, 1, 2, 3, 4, 5]"
    by (simp add: dropna_one_outlier elapsed_daily)
  have y2: "log_price (map snd (dropna one_outlier))
            = [ln 100000, ln 100000, ln 100000 + ln 2, ln 100000, ln 100000, ln 100000]"
    by (simp add: dropna_one_outlier log_price_one_outlier)
  have g2: "length [- 5 / 21 * ln 2, - 22 / 105 * ln 2, 86 / 105 * ln 2, - 16 / 105 * ln 2,
                    - 13 / 105 * ln 2, - 2 / 21 * ln (2 :: real)] = 6
            \<and> length [11 / 21, 31 / 105, 19 / 105, 19 / 105, 31 / 105, 11 / 21 :: real] = 6"
    by simp
  have i2: "(2 :: nat) < 6" by simp
  note t2 = regression_residual_rule [of one_outlier, THEN conjunct2, THEN mp, OF h2,
      unfolded Let_def x2 y2 outlier_resid daily_hat_diag n2]
  note u2 = t2 [THEN conjunct2, THEN conjunct2, THEN conjunct2, rule_format, OF g2,
      THEN conjunct2, rule_format, OF i2, unfolded t2 [THEN conjunct1, symmetric]]
  from u2 have "HighLeverage (cooks_distance_time_regression one_outlier ! 2)
      = (2 < \<bar>86 / 105 * ln 2\<bar>
             / (if 0 < sqrt (43 / 315 * (ln 2) ^ 2) then sqrt (43 / 315 * (ln 2) ^ 2) else 1))"
    unfolding outlier_std by simp
  with outlier_studentized [OF ln_2_pos]
  have d: "HighLeverage (cooks_distance_time_regression one_outlier ! 2)" by simp
  from u2 have e: "Leverage (cooks_distance_time_regression one_outlier ! 2) = Some (19 / 105)"
    by simp
  have h3: "6 \<le> length (dropna linear_price_trend)" by (simp add: dropna_linear_price_trend)
  have n3: "length (dropna linear_price_trend) = 6" by (simp add: dropna_linear_price_trend)
  have y3: "log_price (map snd (dropna linear_price_trend))
            = [ln 100000, ln 100000 + ln 2, ln 100000 + 2 * ln 2, ln 100000 + 3 * ln 2,
               ln 100000 + 4 * ln 2, ln 100000 + 5 * ln 2]"
    by (simp add: dropna_linear_price_trend log_price_doubling)
  have e5: "[- 8 / 7 * ln 2, - 2 / 7 * ln 2, 3 / 7 * ln 2, 6 / 7 * ln 2, 5 / 7 * ln 2,
             - 4 / 7 * ln (2 :: real)] ! 5 = - 4 / 7 * ln 2" by simp
  have g3: "length [- 8 / 7 * ln 2, - 2 / 7 * ln 2, 3 / 7 * ln 2, 6 / 7 * ln 2, 5 / 7 * ln 2,
                    - 4 / 7 * ln (2 :: real)] = 6
            \<and> length (hat_diag [0, 1, 3, 7, 15, 31]) = 6"
    by (simp add: length_hat_diag)
  have i3: "(5 :: nat) < 6" by simp
  note t3 = regression_residual_rule [of linear_price_trend, THEN conjunct2, THEN mp, OF h3,
      unfolded Let_def elapsed_linear_price_trend y3 trend_resid n3]
  note u3 = t3 [THEN conjunct2, THEN conjunct2, THEN conjunct2, rule_format, OF g3,
      THEN conjunct2, rule_format, OF i3, unfolded t3 [THEN conjunct1, symmetric]
      trend_s2 trend_hat_diag e5, unfolded r6, THEN conjunct2, THEN conjunct2, THEN conjunct2]
  have f: "HighCooksD (cooks_distance_time_regression linear_price_trend ! 5)"
    using u3 trend_cooks [OF ln_2_lower, unfolded eps_def] by (rule iffD2)
  show ?thesis using h1 c h2 d e h3 f by simp
qed
text \<open>
  Claim C5 as stated, with the statistic \<open>D\<close> of the specification, fails. For five sales
  at 300000.00 and a sixth at 300000.01 on six consecutive days, \<open>D\<close> of the last record is
  \<open>11 / 5\<close>, above \<open>4 / 6\<close>, but the record is not flagged: the residuals are so small that
  \<open>eps\<close> dominates the mean squared error in the statistic the code compares.
\<close>

theorem cooks_distance_guard_counterexample:
  "4 / real (length (dropna near_constant))
     < cooks_spec (resid (elapsed_days (map fst (dropna near_constant)))
                         (log_price (map snd (dropna near_constant))))
                  (hat_diag (elapsed_days (map fst (dropna near_constant)))) ! 5
   \<and> \<not> HighCooksD (cooks_distance_time_regression near_constant ! 5)"
proof -
  define d :: real where "d = ln (30000001 / 30000000)"
  define e where
    "e = [4 / 21 * d, 1 / 21 * d, - 2 / 21 * d, - 5 / 21 * d, - 8 / 21 * d, 10 / 21 * d]"
  define H :: "real list" where "H = [11 / 21, 31 / 105, 19 / 105, 19 / 105, 31 / 105, 11 / 21]"
  have d: "0 < d" "d \<le> 1 / 30000000" unfolding d_def by (rule small_log_bounds)+
  have six: "6 \<le> length (dropna near_constant)" by (simp add: dropna_near_constant)
  have i: "5 < length (dropna near_constant)" by (simp add: dropna_near_constant)
  have n: "real (length (dropna near_constant)) = 6" by (simp add: dropna_near_constant)
  have x: "elapsed_days (map fst (dropna near_constant)) = [0, 1, 2, 3, 4, 5]"
    by (simp add: dropna_near_constant elapsed_daily)
  have y: "log_price (map snd (dropna near_constant))
           = [ln 300000, ln 300000, ln 300000, ln 300000, ln 300000, ln 300000 + d]"
    unfolding d_def by (simp add: dropna_near_constant log_price_near_constant)
  have r: "resid [0, 1, 2, 3, 4, 5] (log_price (map snd (dropna near_constant))) = e"
    unfolding y e_def by (rule near_resid)
  have hd: "hat_diag [0, 1, 2, 3, 4, 5] = H" unfolding H_def by (rule daily_hat_diag)
  have m: "mse e = 5 / 42 * d ^ 2" unfolding e_def by (rule near_mse)
  have e5: "e ! 5 = 10 / 21 * d" by (simp add: e_def)
  have h5: "H ! 5 = 11 / 21" by (simp add: H_def)
  have "cooks_spec e H ! 5 = (e ! 5) ^ 2 / (2 * mse e) * (H ! 5 / (1 - H ! 5) ^ 2)"
    by (simp add: cooks_spec_def e_def H_def)
  also have "\<dots> = 11 / 5" unfolding e5 m h5 using d(1) by (intro near_cooks_spec) simp
  finally have a: "4 / 6 < cooks_spec e H ! 5" by simp
  have k: "cooks e H ! 5 = (e ! 5) ^ 2 / (2 * (mse e + eps)) * (H ! 5 / (max eps (1 - H ! 5)) ^ 2)"
    by (rule cooks_nth) (simp_all add: e_def H_def)
  have "cooks e H ! 5 \<le> 4 / 6" unfolding k e5 m h5 by (rule near_cooks [OF d])
  moreover have "HighCooksD (cooks_distance_time_regression near_constant ! 5)
                 = (cooks e H ! 5 > 4 / 6)"
    unfolding cooks_rows(2) [OF six i] x r hd n by simp
  ultimately have b: "\<not> HighCooksD (cooks_distance_time_regression near_constant ! 5)" by simp
  from a b show ?thesis unfolding x r hd n by simp
qed




end
